theory Spec2Isabelle
  imports Main
begin

section \<open>Characters and strings of the host language\<close>

text \<open>
  The program is TypeScript. A string of the program is modelled as a \<^typ>\<open>string\<close>; a
  character of code \<open>n\<close> stands for the code unit \<open>n\<close> (the range U+0000 to U+00FF).
\<close>

definition isSpace :: "char \<Rightarrow> bool" where
  \<comment> \<open>the class \<open>\s\<close> and the characters removed by \<open>trim()\<close>: TAB, LF, VT, FF, CR, SP, NBSP\<close>
  "isSpace c = (of_char c \<in> {9, 10, 11, 12, 13, 32, 160 :: nat})"

definition isWord :: "char \<Rightarrow> bool" where
  \<comment> \<open>the class \<open>\w\<close>: \<open>[A-Za-z0-9_]\<close>\<close>
  "isWord c = (let n = (of_char c :: nat) in
     (48 \<le> n \<and> n \<le> 57) \<or> (65 \<le> n \<and> n \<le> 90) \<or> (97 \<le> n \<and> n \<le> 122) \<or> n = 95)"

definition isDot :: "char \<Rightarrow> bool" where
  \<comment> \<open>the class \<open>.\<close>: anything but a line terminator (LF, CR in this range)\<close>
  "isDot c = (of_char c \<notin> {10, 13 :: nat})"

definition trim :: "string \<Rightarrow> string" where
  "trim s = rev (dropWhile isSpace (rev (dropWhile isSpace s)))"

definition startsWith :: "string \<Rightarrow> string \<Rightarrow> bool" where
  "startsWith s p = (take (length p) s = p)"

definition endsWith :: "string \<Rightarrow> string \<Rightarrow> bool" where
  "endsWith s p = (length p \<le> length s \<and> drop (length s - length p) s = p)"

definition slice :: "string \<Rightarrow> int \<Rightarrow> int \<Rightarrow> string" where
  \<comment> \<open>\<open>s.slice(start, end)\<close>: a negative index counts from the end\<close>
  "slice s start end =
     (let len = int (length s);
          from = (if start < 0 then max (len + start) 0 else min start len);
          to = (if end < 0 then max (len + end) 0 else min end len)
      in take (nat (to - from)) (drop (nat from) s))"

function splitFrom :: "string \<Rightarrow> string \<Rightarrow> string \<Rightarrow> string list" where
  "splitFrom sep [] cur = [rev cur]"
| "splitFrom sep (c # cs) cur =
     (if sep \<noteq> [] \<and> startsWith (c # cs) sep
      then rev cur # splitFrom sep (drop (length sep) (c # cs)) []
      else splitFrom sep cs (c # cur))"
  by pat_completeness auto
termination
  by (relation "measure (\<lambda>(sep, s, cur). length s)") auto

definition split :: "string \<Rightarrow> string \<Rightarrow> string list" where
  \<comment> \<open>\<open>s.split(sep)\<close> for a string separator; the empty separator splits into code units\<close>
  "split s sep = (if sep = [] then map (\<lambda>c. [c]) s else splitFrom sep s [])"

fun join :: "string list \<Rightarrow> string \<Rightarrow> string" where
  "join [] sep = []"
| "join [x] sep = x"
| "join (x # y # ys) sep = x @ sep @ join (y # ys) sep"

section \<open>Regular expressions\<close>

text \<open>
  The four regular expressions of the program use character classes, sequence, alternation,
  greedy and lazy repetition of a single class, capture groups and the anchors. They are
  matched as the host does: by backtracking, the first alternative and the longest (greedy)
  or shortest (lazy) repetition tried first.
\<close>

datatype re =
    Cls "char \<Rightarrow> bool"
  | Seq re re
  | Alt re re
  | Star "char \<Rightarrow> bool"
  | LazyStar "char \<Rightarrow> bool"
  | Group nat re
  | Bol
  | Eol

type_synonym captures = "nat \<Rightarrow> string option"
type_synonym mstate = "string \<times> captures"

abbreviation Chr :: "char \<Rightarrow> re" where
  "Chr c \<equiv> Cls (\<lambda>x. x = c)"

abbreviation Plus :: "(char \<Rightarrow> bool) \<Rightarrow> re" where
  "Plus p \<equiv> Seq (Cls p) (Star p)"

fun m :: "string \<Rightarrow> re \<Rightarrow> string \<Rightarrow> captures \<Rightarrow> (mstate \<Rightarrow> mstate option) \<Rightarrow> mstate option" where
  "m inp (Cls p) [] cs k = None"
| "m inp (Cls p) (c # r) cs k = (if p c then k (r, cs) else None)"
| "m inp (Seq a b) r cs k = m inp a r cs (\<lambda>(r', cs'). m inp b r' cs' k)"
| "m inp (Alt a b) r cs k =
     (case m inp a r cs k of Some x \<Rightarrow> Some x | None \<Rightarrow> m inp b r cs k)"
| "m inp (Star p) [] cs k = k ([], cs)"
| "m inp (Star p) (c # r) cs k =
     (if p c
      then (case m inp (Star p) r cs k of Some x \<Rightarrow> Some x | None \<Rightarrow> k (c # r, cs))
      else k (c # r, cs))"
| "m inp (LazyStar p) [] cs k = k ([], cs)"
| "m inp (LazyStar p) (c # r) cs k =
     (case k (c # r, cs) of
        Some x \<Rightarrow> Some x
      | None \<Rightarrow> (if p c then m inp (LazyStar p) r cs k else None))"
| "m inp (Group n a) r cs k =
     m inp a r cs (\<lambda>(r', cs'). k (r', cs'(n \<mapsto> take (length r - length r') r)))"
| "m inp Bol r cs k = (if length r = length inp then k (r, cs) else None)"
| "m inp Eol r cs k = (if r = [] then k (r, cs) else None)"

definition matchAt :: "re \<Rightarrow> string \<Rightarrow> string \<Rightarrow> mstate option" where
  \<comment> \<open>one attempt at the position where \<open>rest\<close> starts: what is left, and the captures\<close>
  "matchAt rx inp rest = m inp rx rest (\<lambda>_. None) Some"

fun regexExec :: "re \<Rightarrow> string \<Rightarrow> string \<Rightarrow> (nat \<times> mstate) option" where
  \<comment> \<open>the first position at or after the start of \<open>rest\<close> with a match; the number of
      characters skipped\<close>
  "regexExec rx inp rest =
     (case matchAt rx inp rest of
        Some st \<Rightarrow> Some (0, st)
      | None \<Rightarrow>
         (case rest of
            [] \<Rightarrow> None
          | c # cs \<Rightarrow> map_option (\<lambda>(n, st). (Suc n, st)) (regexExec rx inp cs)))"


fun minLen :: "re \<Rightarrow> nat" where
  "minLen (Cls p) = 1"
| "minLen (Seq a b) = minLen a + minLen b"
| "minLen (Alt a b) = min (minLen a) (minLen b)"
| "minLen (Star p) = 0"
| "minLen (LazyStar p) = 0"
| "minLen (Group n a) = minLen a"
| "minLen Bol = 0"
| "minLen Eol = 0"

lemma m_consumes:
  "m inp rx r cs k = Some st \<Longrightarrow>
     \<exists>r' cs'. k (r', cs') = Some st \<and> length r' + minLen rx \<le> length r"
proof (induction inp rx r cs k arbitrary: st rule: m.induct)
  case (3 inp a b r cs k)
  from "3.prems" have "m inp a r cs (\<lambda>(r', cs'). m inp b r' cs' k) = Some st" by simp
  from "3.IH"(2)[OF this] obtain r1 cs1 where
    h1: "m inp b r1 cs1 k = Some st" and l1: "length r1 + minLen a \<le> length r" by auto
  from "3.IH"(1)[OF h1] obtain r2 cs2 where
    "k (r2, cs2) = Some st" and "length r2 + minLen b \<le> length r1" by auto
  with l1 show ?case by (intro exI[of _ r2] exI[of _ cs2]) simp
next
  case (4 inp a b r cs k)
  show ?case
  proof (cases "m inp a r cs k")
    case None
    with "4.prems" have "m inp b r cs k = Some st" by simp
    from "4.IH"(2)[OF None this] show ?thesis by fastforce
  next
    case (Some x)
    with "4.prems" have "m inp a r cs k = Some st" by simp
    from "4.IH"(1)[OF this] show ?thesis by fastforce
  qed
next
  case (6 inp p c r cs k)
  show ?case
  proof (cases "p c")
    case False
    with "6.prems" show ?thesis by (intro exI[of _ "c # r"] exI[of _ cs]) simp
  next
    case True
    show ?thesis
    proof (cases "m inp (Star p) r cs k")
      case None
      with True "6.prems" show ?thesis by (intro exI[of _ "c # r"] exI[of _ cs]) simp
    next
      case (Some x)
      with True "6.prems" have "m inp (Star p) r cs k = Some st" by simp
      from "6.IH"[OF True this] show ?thesis by fastforce
    qed
  qed
next
  case (8 inp p c r cs k)
  show ?case
  proof (cases "k (c # r, cs)")
    case (Some x)
    with "8.prems" show ?thesis by (intro exI[of _ "c # r"] exI[of _ cs]) simp
  next
    case None
    with "8.prems" have pc: "p c" and "m inp (LazyStar p) r cs k = Some st"
      by (auto split: if_splits)
    from "8.IH"[OF None pc this(2)] show ?thesis by fastforce
  qed
next
  case (9 inp n a r cs k)
  from "9.prems"
  have "m inp a r cs (\<lambda>(r', cs'). k (r', cs'(n \<mapsto> take (length r - length r') r))) = Some st"
    by simp
  from "9.IH"[OF this] show ?case by fastforce
qed (auto split: if_splits)

lemma matchAt_consumes:
  "matchAt rx inp rest = Some (rest', cs) \<Longrightarrow> length rest' + minLen rx \<le> length rest"
  using m_consumes[of inp rx rest "\<lambda>_. None" Some "(rest', cs)"]
  by (auto simp: matchAt_def)

lemma regexExec_consumes:
  "regexExec rx inp rest = Some (n, rest', cs) \<Longrightarrow> length rest' + minLen rx + n \<le> length rest"
proof (induction rest arbitrary: n)
  case Nil
  then show ?case
    by (auto split: option.splits dest: matchAt_consumes)
next
  case (Cons c rest)
  show ?case
  proof (cases "matchAt rx inp (c # rest)")
    case (Some st)
    with Cons.prems show ?thesis by (auto dest: matchAt_consumes)
  next
    case None
    with Cons.prems obtain n' where "regexExec rx inp rest = Some (n', rest', cs)" "n = Suc n'"
      by auto
    with Cons.IH show ?thesis by fastforce
  qed
qed


declare regexExec.simps [simp del]

section \<open>Values\<close>

text \<open>
  A data document is a \<open>Json\<close> value of the program. Numbers are the host's; the
  operations the program applies to them are fields of the host below. An object is the
  list of its own properties, as \<open>JSON.parse\<close> builds it; a key is looked up with
  \<^const>\<open>map_of\<close>.
\<close>

datatype 'n json =
    JNull
  | JBool bool
  | JNum 'n
  | JStr string
  | JArr "'n json list"
  | JObj "(string \<times> 'n json) list"

text \<open>
  What a variable of type \<open>any\<close> holds while a placeholder is evaluated: \<open>undefined\<close>, a
  value of the document, or what the lookup \<open>part in current\<close> finds on the prototype
  chain of an object or an array (a built-in function, named, or a prototype object).
\<close>

datatype 'n jsval =
    Undefined
  | Json "'n json"
  | Fn string
  | ObjectPrototype
  | ArrayPrototype

datatype error = TypeError

text \<open>
  The host: the number operations the program uses, \<open>Date\<close>, and the source text of a
  built-in function. A \<open>Date\<close> is its time value in milliseconds, \<open>None\<close> when it is
  \<open>NaN\<close>.
\<close>

record 'n host =
  numLt1e11 :: "'n \<Rightarrow> bool"
  numMul1000 :: "'n \<Rightarrow> 'n"
  numTimeClip :: "'n \<Rightarrow> int option"
  numToString :: "'n \<Rightarrow> string"
  numTruthy :: "'n \<Rightarrow> bool"
  numOfLength :: "nat \<Rightarrow> 'n"
  dateParse :: "string \<Rightarrow> int option"
  toLocaleDateString :: "int \<Rightarrow> string"
  fnToString :: "string \<Rightarrow> string"

definition andThen :: "error + 'a \<Rightarrow> ('a \<Rightarrow> error + 'b) \<Rightarrow> error + 'b" where
  "andThen r f = (case r of Inl e \<Rightarrow> Inl e | Inr x \<Rightarrow> f x)"

subsection \<open>Conversion to a string\<close>

text \<open>
  \<open>String(value)\<close>. An array joins its elements with a comma, \<open>null\<close> elements as the
  empty string. An object is converted by its \<open>toString\<close>: the inherited one gives
  \<open>[object Object]\<close>; an own property \<open>toString\<close> of a document is never a function, and
  the conversion raises a \<open>TypeError\<close>.
\<close>

fun jsonToString :: "'n host \<Rightarrow> 'n json \<Rightarrow> error + string"
  and joinElements :: "'n host \<Rightarrow> 'n json list \<Rightarrow> error + string" where
  "jsonToString h JNull = Inr ''null''"
| "jsonToString h (JBool b) = Inr (if b then ''true'' else ''false'')"
| "jsonToString h (JNum n) = Inr (numToString h n)"
| "jsonToString h (JStr s) = Inr s"
| "jsonToString h (JArr xs) = joinElements h xs"
| "jsonToString h (JObj kvs) =
     (case map_of kvs ''toString'' of
        Some v \<Rightarrow> Inl TypeError
      | None \<Rightarrow> Inr ''[object Object]'')"
| "joinElements h [] = Inr []"
| "joinElements h (x # xs) =
     (case (case x of JNull \<Rightarrow> Inr [] | _ \<Rightarrow> jsonToString h x) of
        Inl e \<Rightarrow> Inl e
      | Inr s \<Rightarrow>
         (case xs of
            [] \<Rightarrow> Inr s
          | _ # _ \<Rightarrow> (case joinElements h xs of Inl e \<Rightarrow> Inl e | Inr t \<Rightarrow> Inr (s @ '','' @ t))))"

fun ToString :: "'n host \<Rightarrow> 'n jsval \<Rightarrow> error + string" where
  "ToString h Undefined = Inr ''undefined''"
| "ToString h (Json j) = jsonToString h j"
| "ToString h (Fn name) = Inr (fnToString h name)"
| "ToString h ObjectPrototype = Inr ''[object Object]''"
| "ToString h ArrayPrototype = Inr []"

fun truthy :: "'n host \<Rightarrow> 'n jsval \<Rightarrow> bool" where
  "truthy h Undefined = False"
| "truthy h (Json JNull) = False"
| "truthy h (Json (JBool b)) = b"
| "truthy h (Json (JNum n)) = numTruthy h n"
| "truthy h (Json (JStr s)) = (s \<noteq> [])"
| "truthy h _ = True"

fun typeofObject :: "'n jsval \<Rightarrow> bool" where
  \<comment> \<open>\<open>typeof v === "object"\<close>\<close>
  "typeofObject (Json JNull) = True"
| "typeofObject (Json (JArr xs)) = True"
| "typeofObject (Json (JObj kvs)) = True"
| "typeofObject ObjectPrototype = True"
| "typeofObject ArrayPrototype = True"
| "typeofObject _ = False"

subsection \<open>Properties\<close>

function showNat :: "nat \<Rightarrow> string" where
  "showNat n =
     (if n < 10 then [''0123456789'' ! n] else showNat (n div 10) @ [''0123456789'' ! (n mod 10)])"
  by pat_completeness auto
termination
  by (relation "measure id") auto

declare showNat.simps [simp del]

definition objectPrototypeMethods :: "string list" where
  \<comment> \<open>the methods of \<open>Object.prototype\<close> (ECMAScript 2023, with Annex B)\<close>
  "objectPrototypeMethods =
     [''constructor'', ''__defineGetter__'', ''__defineSetter__'', ''hasOwnProperty'',
      ''__lookupGetter__'', ''__lookupSetter__'', ''isPrototypeOf'', ''propertyIsEnumerable'',
      ''toString'', ''valueOf'', ''toLocaleString'']"

definition arrayPrototypeMethods :: "string list" where
  \<comment> \<open>the methods of \<open>Array.prototype\<close> (ECMAScript 2023)\<close>
  "arrayPrototypeMethods =
     [''constructor'', ''at'', ''concat'', ''copyWithin'', ''fill'', ''find'', ''findIndex'',
      ''findLast'', ''findLastIndex'', ''lastIndexOf'', ''pop'', ''push'', ''reverse'',
      ''shift'', ''unshift'', ''slice'', ''sort'', ''splice'', ''includes'', ''indexOf'',
      ''join'', ''keys'', ''entries'', ''values'', ''forEach'', ''filter'', ''flat'',
      ''flatMap'', ''map'', ''every'', ''some'', ''reduce'', ''reduceRight'',
      ''toLocaleString'', ''toString'', ''toReversed'', ''toSorted'', ''toSpliced'', ''with'']"

definition builtin :: "string \<Rightarrow> string \<Rightarrow> 'n jsval" where
  \<comment> \<open>a built-in method; \<open>constructor\<close> is the function \<open>Object\<close> or \<open>Array\<close>\<close>
  "builtin ctor name = Fn (if name = ''constructor'' then ctor else name)"

fun prototypeOf :: "'n jsval \<Rightarrow> 'n jsval" where
  "prototypeOf (Json (JObj kvs)) = ObjectPrototype"
| "prototypeOf (Json (JArr xs)) = ArrayPrototype"
| "prototypeOf ArrayPrototype = ObjectPrototype"
| "prototypeOf _ = Json JNull"

fun ownProperty :: "'n host \<Rightarrow> 'n jsval \<Rightarrow> 'n jsval \<Rightarrow> string \<Rightarrow> 'n jsval option" where
  \<comment> \<open>the own property \<open>part\<close> of \<open>obj\<close>, read for the receiver \<open>recv\<close>\<close>
  "ownProperty h recv (Json (JObj kvs)) part = map_option Json (map_of kvs part)"
| "ownProperty h recv (Json (JArr xs)) part =
     (if part = ''length'' then Some (Json (JNum (numOfLength h (length xs))))
      else map_option (\<lambda>i. Json (xs ! i)) (find (\<lambda>i. showNat i = part) [0..<length xs]))"
| "ownProperty h recv ArrayPrototype part =
     (if part = ''length'' then Some (Json (JNum (numOfLength h 0)))
      else if part \<in> set arrayPrototypeMethods then Some (builtin ''Array'' part)
      else None)"
| "ownProperty h recv ObjectPrototype part =
     (if part = ''__proto__'' then Some (prototypeOf recv)
      else if part \<in> set objectPrototypeMethods then Some (builtin ''Object'' part)
      else None)"
| "ownProperty h recv _ part = None"

fun prototypeChain :: "'n jsval \<Rightarrow> 'n jsval list" where
  "prototypeChain (Json (JObj kvs)) = [Json (JObj kvs), ObjectPrototype]"
| "prototypeChain (Json (JArr xs)) = [Json (JArr xs), ArrayPrototype, ObjectPrototype]"
| "prototypeChain ArrayPrototype = [ArrayPrototype, ObjectPrototype]"
| "prototypeChain ObjectPrototype = [ObjectPrototype]"
| "prototypeChain _ = []"

fun firstSome :: "('a \<Rightarrow> 'b option) \<Rightarrow> 'a list \<Rightarrow> 'b option" where
  "firstSome f [] = None"
| "firstSome f (x # xs) = (case f x of Some y \<Rightarrow> Some y | None \<Rightarrow> firstSome f xs)"

definition getProperty :: "'n host \<Rightarrow> 'n jsval \<Rightarrow> string \<Rightarrow> 'n jsval option" where
  \<comment> \<open>\<open>part in current\<close> and, when it holds, \<open>current[part]\<close>\<close>
  "getProperty h current part =
     firstSome (\<lambda>obj. ownProperty h current obj part) (prototypeChain current)"

fun walk :: "'n host \<Rightarrow> 'n jsval \<Rightarrow> string list \<Rightarrow> 'n jsval" where
  "walk h current [] = current"
| "walk h current (part # parts) =
     (if truthy h current \<and> typeofObject current
      then (case getProperty h current part of
              Some v \<Rightarrow> walk h v parts
            | None \<Rightarrow> Undefined)
      else Undefined)"

definition resolveDataPath :: "'n host \<Rightarrow> 'n json \<Rightarrow> string \<Rightarrow> 'n jsval" where
  "resolveDataPath h data path =
     (if path = [] then Undefined else walk h (Json data) (split path ''.''))"


section \<open>The transformations\<close>

definition defaultTransformations_default :: "'n host \<Rightarrow> 'n jsval \<Rightarrow> 'n jsval list \<Rightarrow> error + 'n jsval" where
  "defaultTransformations_default h value args =
     (let defaultValue = (case args of [] \<Rightarrow> Undefined | a # _ \<Rightarrow> a)
      in if value = Undefined \<or> value = Json JNull then Inr defaultValue
         else andThen (ToString h value) (\<lambda>s. Inr (Json (JStr s))))"

definition newDate :: "'n host \<Rightarrow> 'n jsval \<Rightarrow> error + int option" where
  \<comment> \<open>\<open>new Date(value)\<close>: a number is clipped to a time value, a boolean is the number 0
      or 1, a string is parsed, anything else is converted to a string and parsed\<close>
  "newDate h value =
     (case value of
        Json (JNum n) \<Rightarrow> Inr (numTimeClip h n)
      | Json (JBool b) \<Rightarrow> Inr (Some (if b then 1 else 0))
      | Json (JStr s) \<Rightarrow> Inr (dateParse h s)
      | _ \<Rightarrow> andThen (ToString h value) (\<lambda>s. Inr (dateParse h s)))"

definition date_try :: "'n host \<Rightarrow> 'n jsval \<Rightarrow> error + string" where
  \<comment> \<open>the body of the \<open>try\<close> block of \<open>date\<close>\<close>
  "date_try h value =
     (if value = Json (JStr []) \<or> value = Undefined \<or> value = Json JNull then Inr []
      else andThen
        (case value of
           Json (JNum n) \<Rightarrow>
             (if numLt1e11 h n then newDate h (Json (JNum (numMul1000 h n)))
              else newDate h value)
         | _ \<Rightarrow> newDate h value)
        (\<lambda>date. case date of
                   None \<Rightarrow> Inr ''#ERROR''
                 | Some t \<Rightarrow> Inr (toLocaleDateString h t)))"

definition defaultTransformations_date :: "'n host \<Rightarrow> 'n jsval \<Rightarrow> 'n jsval list \<Rightarrow> error + 'n jsval" where
  "defaultTransformations_date h value args =
     (case date_try h value of
        Inl e \<Rightarrow> Inr (Json (JStr ''#ERROR''))
      | Inr s \<Rightarrow> Inr (Json (JStr s)))"

fun destructurePair :: "'n jsval \<Rightarrow> error + 'n jsval \<times> 'n jsval" where
  \<comment> \<open>\<open>const [search, replace] = pair\<close>: the first two values the pair iterates over, an
      array its elements and a string its characters; a value that is not iterable raises\<close>
  "destructurePair (Json (JArr xs)) =
     Inr (case xs of [] \<Rightarrow> (Undefined, Undefined)
          | [a] \<Rightarrow> (Json a, Undefined)
          | a # b # _ \<Rightarrow> (Json a, Json b))"
| "destructurePair (Json (JStr s)) =
     Inr (case s of [] \<Rightarrow> (Undefined, Undefined)
          | [a] \<Rightarrow> (Json (JStr [a]), Undefined)
          | a # b # _ \<Rightarrow> (Json (JStr [a]), Json (JStr [b])))"
| "destructurePair ArrayPrototype = Inr (Undefined, Undefined)"
| "destructurePair _ = Inl TypeError"

fun replaceLoop :: "'n host \<Rightarrow> string \<Rightarrow> 'n jsval list \<Rightarrow> error + string" where
  "replaceLoop h result [] = Inr result"
| "replaceLoop h result (pair # replacePairs) =
     (case destructurePair pair of
        Inl e \<Rightarrow> Inl e
      | Inr (search, replace) \<Rightarrow>
         (if search \<noteq> Json (JStr [])
          then (case ToString h search of
                  Inl e \<Rightarrow> Inl e
                | Inr s \<Rightarrow>
                   (case ToString h replace of
                      Inl e \<Rightarrow> Inl e
                    | Inr r \<Rightarrow> replaceLoop h (join (split result s) r) replacePairs))
          else replaceLoop h result replacePairs))"

definition defaultTransformations_replace :: "'n host \<Rightarrow> 'n jsval \<Rightarrow> 'n jsval list \<Rightarrow> error + 'n jsval" where
  "defaultTransformations_replace h value replacePairs =
     andThen (ToString h (if value = Undefined \<or> value = Json JNull then Json (JStr []) else value))
       (\<lambda>result. andThen (replaceLoop h result replacePairs) (\<lambda>s. Inr (Json (JStr s))))"

section \<open>The argument parser\<close>

text \<open>
  A parsed argument is a string or an array of strings (\<open>any[]\<close> in the program).
\<close>

definition argsRegex :: re where
  \<comment> \<open>\<open>/\s*(\[[^\]]*\]|'[^']*'|[^,\s][^,]*)\s*(,|$)/g\<close>\<close>
  "argsRegex =
     Seq (Star isSpace)
      (Seq (Group 1
         (Alt (Seq (Chr CHR ''['') (Seq (Star (\<lambda>c. c \<noteq> CHR '']'')) (Chr CHR '']'')))
           (Alt (Seq (Chr (CHR 0x27)) (Seq (Star (\<lambda>c. c \<noteq> CHR 0x27)) (Chr (CHR 0x27))))
                (Seq (Cls (\<lambda>c. c \<noteq> CHR '','' \<and> \<not> isSpace c)) (Star (\<lambda>c. c \<noteq> CHR '',''))))))
        (Seq (Star isSpace) (Group 2 (Alt (Chr CHR '','') Eol))))"

definition arrRegex :: re where
  \<comment> \<open>\<open>/\s*('[^']*'|[^,\s][^,]*)\s*(,|$)/g\<close>\<close>
  "arrRegex =
     Seq (Star isSpace)
      (Seq (Group 1
         (Alt (Seq (Chr (CHR 0x27)) (Seq (Star (\<lambda>c. c \<noteq> CHR 0x27)) (Chr (CHR 0x27))))
              (Seq (Cls (\<lambda>c. c \<noteq> CHR '','' \<and> \<not> isSpace c)) (Star (\<lambda>c. c \<noteq> CHR '','')))))
        (Seq (Star isSpace) (Group 2 (Alt (Chr CHR '','') Eol))))"

lemma minLen_argsRegex: "minLen argsRegex = 1"
  by (simp add: argsRegex_def)

lemma minLen_arrRegex: "minLen arrRegex = 1"
  by (simp add: arrRegex_def)

function arrayLoop :: "string \<Rightarrow> string \<Rightarrow> error + string list" where
  \<comment> \<open>the inner \<open>while\<close> loop: \<open>rest\<close> is the input from \<open>lastIndex\<close> on\<close>
  "arrayLoop inner rest =
     (case regexExec arrRegex inner rest of
        None \<Rightarrow> Inr []
      | Some (n, rest', cs) \<Rightarrow>
         (case cs 1 of
            None \<Rightarrow> Inl TypeError
          | Some g \<Rightarrow>
             (let element = trim g;
                  element = (if startsWith element [CHR 0x27] \<and> endsWith element [CHR 0x27]
                             then slice element 1 (- 1) else element)
              in case arrayLoop inner rest' of
                   Inl e \<Rightarrow> Inl e
                 | Inr arr \<Rightarrow> Inr (element # arr))))"
  by pat_completeness auto
termination
  by (relation "measure (\<lambda>(inner, rest). length rest)")
     (auto dest: regexExec_consumes simp: minLen_arrRegex)

datatype arg = StrArg string | ArrArg "string list"

fun argValue :: "arg \<Rightarrow> 'n jsval" where
  "argValue (StrArg s) = Json (JStr s)"
| "argValue (ArrArg xs) = Json (JArr (map JStr xs))"

declare arrayLoop.simps [simp del]

definition parseToken :: "string \<Rightarrow> error + arg" where
  \<comment> \<open>the body of the outer loop: the argument a token stands for\<close>
  "parseToken token =
     (if startsWith token ''['' \<and> endsWith token '']''
      then (let inner = trim (slice token 1 (- 1))
            in if inner = [] then Inr (ArrArg [])
               else andThen (arrayLoop inner inner) (\<lambda>arr. Inr (ArrArg arr)))
      else if startsWith token [CHR 0x27] \<and> endsWith token [CHR 0x27]
      then Inr (StrArg (slice token 1 (- 1)))
      else Inr (StrArg token))"

function argsLoop :: "string \<Rightarrow> string \<Rightarrow> error + arg list" where
  "argsLoop argsString rest =
     (case regexExec argsRegex argsString rest of
        None \<Rightarrow> Inr []
      | Some (n, rest', cs) \<Rightarrow>
         (case cs 1 of
            None \<Rightarrow> Inl TypeError
          | Some g \<Rightarrow>
             (case parseToken (trim g) of
                Inl e \<Rightarrow> Inl e
              | Inr arg \<Rightarrow>
                 (case argsLoop argsString rest' of
                    Inl e \<Rightarrow> Inl e
                  | Inr args \<Rightarrow> Inr (arg # args)))))"
  by pat_completeness auto
termination
  by (relation "measure (\<lambda>(argsString, rest). length rest)")
     (auto dest: regexExec_consumes simp: minLen_argsRegex)

declare argsLoop.simps [simp del]

definition parseTransformationArgs :: "string \<Rightarrow> error + arg list" where
  "parseTransformationArgs argsString = argsLoop argsString argsString"


section \<open>The placeholder evaluator and the scanner\<close>

definition transformationRegex :: re where
  \<comment> \<open>\<open>/^(\w+)\((.*)\)$/\<close>\<close>
  "transformationRegex =
     Seq Bol (Seq (Group 1 (Plus isWord)) (Seq (Chr CHR ''('')
       (Seq (Group 2 (Star isDot)) (Seq (Chr CHR '')'') Eol))))"

definition placeholderRegex :: re where
  \<comment> \<open>\<open>/{{([^{}]*?)}}/g\<close>\<close>
  "placeholderRegex =
     Seq (Chr CHR ''{'') (Seq (Chr CHR ''{'')
       (Seq (Group 1 (LazyStar (\<lambda>c. c \<noteq> CHR ''{'' \<and> c \<noteq> CHR ''}'')))
         (Seq (Chr CHR ''}'') (Chr CHR ''}''))))"

definition callTransformation :: "'n host \<Rightarrow> string \<Rightarrow> 'n jsval \<Rightarrow> 'n jsval list \<Rightarrow> error + 'n jsval" where
  \<comment> \<open>\<open>defaultTransformations[transformName](dataValue, ...remainingArgs)\<close>, for a name
      of the registry\<close>
  "callTransformation h transformName dataValue remainingArgs =
     (if transformName = ''default'' then defaultTransformations_default h dataValue remainingArgs
      else if transformName = ''date'' then defaultTransformations_date h dataValue remainingArgs
      else defaultTransformations_replace h dataValue remainingArgs)"

definition hasOwnProperty :: "string \<Rightarrow> bool" where
  \<comment> \<open>\<open>defaultTransformations.hasOwnProperty(name)\<close>\<close>
  "hasOwnProperty name = (name \<in> {''default'', ''date'', ''replace''})"

definition dataValueOf :: "'n host \<Rightarrow> 'n json \<Rightarrow> 'n jsval list \<Rightarrow> error + 'n jsval" where
  \<comment> \<open>\<open>keyArg\<close> and \<open>dataValue\<close>: the first argument, when it is truthy, is converted to a
      string and resolved as a path\<close>
  "dataValueOf h dataToUse parsedArgs =
     (let keyArg = (case parsedArgs of [] \<Rightarrow> Json (JStr []) | a # _ \<Rightarrow> a)
      in if truthy h keyArg
         then andThen (ToString h keyArg) (\<lambda>path. Inr (resolveDataPath h dataToUse path))
         else Inr Undefined)"

definition replacer :: "'n host \<Rightarrow> 'n json \<Rightarrow> string \<Rightarrow> error + 'n jsval" where
  \<comment> \<open>the function given to \<open>template.replace\<close>, applied to the first group; its result
      is what it returns, before \<open>replace\<close> converts it to a string. The \<open>catch\<close> also
      logs to the console, which is no part of the result.\<close>
  "replacer h dataToUse placeholderContent =
     (let trimmedContent = trim placeholderContent
      in if trimmedContent = [] then Inr (Json (JStr []))
         else case regexExec transformationRegex trimmedContent trimmedContent of
           Some (n, rest', transformationMatch) \<Rightarrow>
             (case transformationMatch 1 of
                None \<Rightarrow> Inr (Json (JStr ''#ERROR''))
              | Some transformName \<Rightarrow>
                 (if \<not> hasOwnProperty transformName then Inr (Json (JStr ''#ERROR''))
                  else
                    andThen (parseTransformationArgs
                       (case transformationMatch 2 of None \<Rightarrow> ''undefined'' | Some a \<Rightarrow> a))
                     (\<lambda>parsed.
                       let parsedArgs = map argValue parsed
                       in andThen (dataValueOf h dataToUse parsedArgs)
                            (\<lambda>dataValue.
                              let remainingArgs = drop 1 parsedArgs
                              in case callTransformation h transformName dataValue remainingArgs of
                                   Inl e \<Rightarrow> Inr (Json (JStr ''#ERROR''))
                                 | Inr v \<Rightarrow> Inr v))))
         | None \<Rightarrow>
             (let value = resolveDataPath h dataToUse trimmedContent
              in if value \<noteq> Undefined \<and> value \<noteq> Json JNull
                 then andThen (ToString h value) (\<lambda>s. Inr (Json (JStr s)))
                 else Inr (Json (JStr []))))"

function replaceAll :: "re \<Rightarrow> (string \<Rightarrow> captures \<Rightarrow> error + string) \<Rightarrow> string \<Rightarrow> string \<Rightarrow> error + string" where
  \<comment> \<open>\<open>inp.replace(rx, f)\<close> for a global \<open>rx\<close>, from the position where \<open>rest\<close> starts:
      the text before a match is copied, the match is replaced by what \<open>f\<close> returns, and
      the search goes on after the match (one character further after an empty match)\<close>
  "replaceAll rx f inp rest =
     (case regexExec rx inp rest of
        None \<Rightarrow> Inr rest
      | Some (n, rest', cs) \<Rightarrow>
         (let matched = take (length rest - n - length rest') (drop n rest)
          in case f matched cs of
               Inl e \<Rightarrow> Inl e
             | Inr replacement \<Rightarrow>
                (if matched = []
                 then (case rest' of
                         [] \<Rightarrow> Inr (take n rest @ replacement)
                       | c # cs' \<Rightarrow>
                          (case replaceAll rx f inp cs' of
                             Inl e \<Rightarrow> Inl e
                           | Inr t \<Rightarrow> Inr (take n rest @ replacement @ c # t)))
                 else (case replaceAll rx f inp rest' of
                         Inl e \<Rightarrow> Inl e
                       | Inr t \<Rightarrow> Inr (take n rest @ replacement @ t)))))"
  by pat_completeness auto
termination
proof (relation "measure (\<lambda>(rx, f, inp, rest). length rest)", goal_cases)
  case 1
  show ?case by simp
next
  case (2 rx f inp rest x n y rest' cs matched replacement c cs')
  then have "regexExec rx inp rest = Some (n, c # cs', cs)" by simp
  from regexExec_consumes[OF this] show ?case by simp
next
  case (3 rx f inp rest x n y rest' cs matched replacement)
  then have "take (length rest - n - length rest') (drop n rest) \<noteq> []" by simp
  then have "length rest' < length rest" by auto
  then show ?case by simp
qed

declare replaceAll.simps [simp del]

definition dataToUse :: "'n host \<Rightarrow> 'n json option \<Rightarrow> 'n json" where
  \<comment> \<open>\<open>data || {}\<close>\<close>
  "dataToUse h data =
     (case data of
        None \<Rightarrow> JObj []
      | Some d \<Rightarrow> if truthy h (Json d) then d else JObj [])"

definition substitute :: "'n host \<Rightarrow> 'n json \<Rightarrow> string \<Rightarrow> captures \<Rightarrow> error + string" where
  \<comment> \<open>what \<open>replace\<close> puts in the place of a match: the result of the function, called
      with the first group, converted to a string\<close>
  "substitute h d matched cs =
     (case cs 1 of
        None \<Rightarrow> Inl TypeError
      | Some placeholderContent \<Rightarrow> andThen (replacer h d placeholderContent) (ToString h))"

definition formatStringWithData :: "'n host \<Rightarrow> string option \<Rightarrow> 'n json option \<Rightarrow> error + string" where
  "formatStringWithData h template data =
     (case template of
        None \<Rightarrow> Inr []
      | Some t \<Rightarrow>
         (if t = [] then Inr []
          else replaceAll placeholderRegex (substitute h (dataToUse h data)) t t))"

section \<open>A sample host\<close>

text \<open>
  A host to run the program on: its numbers are the integers, its short date is
  month/day/year in UTC, it parses no date string, and it prints a built-in function as
  V8 does.
\<close>

definition showInt :: "int \<Rightarrow> string" where
  "showInt i = (if i < 0 then CHR ''-'' # showNat (nat (- i)) else showNat (nat i))"

definition civilDate :: "int \<Rightarrow> int \<times> int \<times> int" where
  \<comment> \<open>year, month and day (UTC, Gregorian calendar) of a time value\<close>
  "civilDate t =
     (let z = t div 86400000 + 719468;
          era = z div 146097;
          doe = z - era * 146097;
          yoe = (doe - doe div 1460 + doe div 36524 - doe div 146096) div 365;
          doy = doe - (365 * yoe + yoe div 4 - yoe div 100);
          mp = (5 * doy + 2) div 153;
          d = doy - (153 * mp + 2) div 5 + 1;
          mo = (if mp < 10 then mp + 3 else mp - 9);
          y = yoe + era * 400 + (if mo \<le> 2 then 1 else 0)
      in (y, mo, d))"

definition shortDate :: "int \<Rightarrow> string" where
  "shortDate t =
     (case civilDate t of (y, mo, d) \<Rightarrow> showInt mo @ ''/'' @ showInt d @ ''/'' @ showInt y)"

definition sampleHost :: "int host" where
  "sampleHost =
     \<lparr> numLt1e11 = (\<lambda>n. n < 100000000000),
       numMul1000 = (\<lambda>n. n * 1000),
       numTimeClip = (\<lambda>n. if \<bar>n\<bar> \<le> 8640000000000000 then Some n else None),
       numToString = showInt,
       numTruthy = (\<lambda>n. n \<noteq> 0),
       numOfLength = int,
       dateParse = (\<lambda>s. None),
       toLocaleDateString = shortDate,
       fnToString = (\<lambda>name. ''function '' @ name @ ''() { [native code] }'') \<rparr>"

section \<open>Predicates of the statements\<close>

definition noBraces :: "string \<Rightarrow> bool" where
  \<comment> \<open>a placeholder body: no \<open>{\<close> and no \<open>}\<close>\<close>
  "noBraces body = list_all (\<lambda>c. c \<noteq> CHR ''{'' \<and> c \<noteq> CHR ''}'') body"

fun containsClose :: "string \<Rightarrow> bool" where
  \<comment> \<open>the text holds a \<open>}}\<close>\<close>
  "containsClose [] = False"
| "containsClose [c] = False"
| "containsClose (c # d # s) = ((c = CHR ''}'' \<and> d = CHR ''}'') \<or> containsClose (d # s))"

text \<open>
  The spec's words for the \<open>replace\<close> transformation, ``a global literal substring
  replacement of \<open>search\<close> with \<open>replacement\<close>'': every occurrence of \<open>search\<close>, found
  from left to right and none overlapping another, is replaced.
\<close>

function globalLiteralReplace :: "string \<Rightarrow> string \<Rightarrow> string \<Rightarrow> string" where
  "globalLiteralReplace search replacement [] = []"
| "globalLiteralReplace search replacement (c # cs) =
     (if search \<noteq> [] \<and> startsWith (c # cs) search
      then replacement @ globalLiteralReplace search replacement (drop (length search) (c # cs))
      else c # globalLiteralReplace search replacement cs)"
  by pat_completeness auto
termination
  by (relation "measure (\<lambda>(search, replacement, s). length s)") auto


text \<open>The regular expression sets the group \<open>n\<close> on every way to match it.\<close>

fun setsGroup :: "nat \<Rightarrow> re \<Rightarrow> bool" where
  "setsGroup n (Seq a b) = (setsGroup n a \<or> setsGroup n b)"
| "setsGroup n (Alt a b) = (setsGroup n a \<and> setsGroup n b)"
| "setsGroup n (Group i a) = (i = n \<or> setsGroup n a)"
| "setsGroup n _ = False"

text \<open>
  No object of the document has an own property \<open>toString\<close>; a value met while a
  placeholder is evaluated comes from such a document.
\<close>

fun noOwnToString :: "'n json \<Rightarrow> bool" where
  "noOwnToString (JArr xs) = list_all noOwnToString xs"
| "noOwnToString (JObj kvs) =
     (map_of kvs ''toString'' = None \<and> list_all (\<lambda>kv. noOwnToString (snd kv)) kvs)"
| "noOwnToString _ = True"

fun safeValue :: "'n jsval \<Rightarrow> bool" where
  "safeValue (Json j) = noOwnToString j"
| "safeValue _ = True"

section \<open>Evaluation\<close>

lemmas ev =
  formatStringWithData_def substitute_def dataToUse_def replaceAll.simps regexExec.simps
  matchAt_def placeholderRegex_def replacer_def dataValueOf_def trim_def isSpace_def transformationRegex_def
  isWord_def isDot_def hasOwnProperty_def parseTransformationArgs_def argsLoop.simps
  argsRegex_def parseToken_def startsWith_def endsWith_def slice_def arrayLoop.simps
  arrRegex_def andThen_def resolveDataPath_def split_def getProperty_def
  callTransformation_def defaultTransformations_replace_def
  defaultTransformations_default_def defaultTransformations_date_def date_try_def newDate_def

section \<open>The scanner\<close>

lemma m_LazyStar_skip:
  assumes "\<And>c r. p c \<Longrightarrow> k (c # r, cs) = None"
  shows "m inp (LazyStar p) r cs k = k (dropWhile p r, cs)"
proof (induction r)
  case Nil
  show ?case by simp
next
  case (Cons c r)
  show ?case
  proof (cases "p c")
    case True
    with assms Cons show ?thesis by simp
  next
    case False
    then show ?thesis by (simp split: option.splits)
  qed
qed

lemma take_takeWhile_length:
  "take (length s - length (dropWhile p s)) s = takeWhile p s"
proof -
  have "length s - length (dropWhile p s) = length (takeWhile p s)"
    by (metis add_diff_cancel_right' length_append takeWhile_dropWhile_id)
  then show ?thesis
    by (metis append_eq_conv_conj takeWhile_dropWhile_id)
qed

lemma matchAt_placeholderRegex:
  "matchAt placeholderRegex inp s =
     (case s of
        c1 # c2 # s' \<Rightarrow>
          (if c1 = CHR ''{'' \<and> c2 = CHR ''{''
           then (case dropWhile (\<lambda>c. c \<noteq> CHR ''{'' \<and> c \<noteq> CHR ''}'') s' of
                   d1 # d2 # t \<Rightarrow>
                     (if d1 = CHR ''}'' \<and> d2 = CHR ''}''
                      then Some (t, [1 \<mapsto> takeWhile (\<lambda>c. c \<noteq> CHR ''{'' \<and> c \<noteq> CHR ''}'') s'])
                      else None)
                 | _ \<Rightarrow> None)
           else None)
      | _ \<Rightarrow> None)"
proof (cases s)
  case Nil
  then show ?thesis by (simp add: matchAt_def placeholderRegex_def)
next
  case (Cons c1 s1)
  show ?thesis
  proof (cases s1)
    case Nil
    with Cons show ?thesis by (simp add: matchAt_def placeholderRegex_def)
  next
    case (Cons c2 s')
    let ?p = "\<lambda>c. c \<noteq> CHR ''{'' \<and> c \<noteq> CHR ''}''"
    let ?k = "\<lambda>(r', cs'). m inp (Seq (Chr CHR ''}'') (Chr CHR ''}'')) r'
                 (cs'(1 \<mapsto> take (length s' - length r') s')) Some"
    have skip: "m inp (LazyStar ?p) s' (\<lambda>_. None) ?k = ?k (dropWhile ?p s', \<lambda>_. None)"
      by (rule m_LazyStar_skip) simp
    have eq: "matchAt placeholderRegex inp s =
        (if c1 = CHR ''{'' \<and> c2 = CHR ''{''
         then m inp (Seq (Chr CHR ''}'') (Chr CHR ''}'')) (dropWhile ?p s')
                [1 \<mapsto> takeWhile ?p s'] Some
         else None)"
      using \<open>s = c1 # s1\<close> Cons
      by (simp add: matchAt_def placeholderRegex_def skip[simplified] take_takeWhile_length)
    note s_eq = \<open>s = c1 # s1\<close> \<open>s1 = c2 # s'\<close>
    obtain d where d: "dropWhile ?p s' = d" by simp
    show ?thesis
    proof (cases d)
      case Nil
      then show ?thesis unfolding eq d using s_eq by (simp add: d)
    next
      case (Cons d1 ds)
      then show ?thesis unfolding eq d using s_eq by (cases ds) (simp_all add: d)
    qed
  qed
qed


lemma replaceAll_Nil: "minLen rx > 0 \<Longrightarrow> replaceAll rx f inp [] = Inr []"
proof -
  assume a: "minLen rx > 0"
  have "matchAt rx inp [] = None"
  proof (cases "matchAt rx inp []")
    case (Some st)
    then show ?thesis using matchAt_consumes[of rx inp "[]" "fst st" "snd st"] a by simp
  qed simp
  then show ?thesis by (simp add: replaceAll.simps regexExec.simps)
qed

lemma replaceAll_skip:
  assumes "matchAt rx inp (c # s) = None"
  shows "replaceAll rx f inp (c # s) =
           (case replaceAll rx f inp s of Inl e \<Rightarrow> Inl e | Inr u \<Rightarrow> Inr (c # u))"
proof (cases "regexExec rx inp s")
  case None
  then have "regexExec rx inp (c # s) = None" using assms by (simp add: regexExec.simps[of rx inp "c # s"])
  with None show ?thesis by (simp add: replaceAll.simps[of rx f inp s] replaceAll.simps[of rx f inp "c # s"])
next
  case (Some r)
  obtain n rest' cs where r: "r = (n, rest', cs)" by (cases r) auto
  with Some have "regexExec rx inp (c # s) = Some (Suc n, rest', cs)"
    using assms by (simp add: regexExec.simps[of rx inp "c # s"])
  with Some r show ?thesis
    by (simp add: replaceAll.simps[of rx f inp s] replaceAll.simps[of rx f inp "c # s"] Let_def
             split: sum.splits list.splits)
qed

lemma replaceAll_match:
  assumes "matchAt rx inp s = Some (t, cs)" and "length t < length s"
  shows "replaceAll rx f inp s =
           (case f (take (length s - length t) s) cs of
              Inl e \<Rightarrow> Inl e
            | Inr r \<Rightarrow> (case replaceAll rx f inp t of Inl e \<Rightarrow> Inl e | Inr u \<Rightarrow> Inr (r @ u)))"
proof -
  have "regexExec rx inp s = Some (0, t, cs)" using assms by (simp add: regexExec.simps[of rx inp s])
  then show ?thesis using assms(2)
    by (auto simp: replaceAll.simps[of rx f inp s] Let_def split: sum.splits)
qed

lemma matchAt_placeholder_Some:
  assumes "noBraces body"
  shows "matchAt placeholderRegex inp (''{{'' @ body @ ''}}'' @ t) = Some (t, [1 \<mapsto> body])"
proof -
  let ?p = "\<lambda>c. c \<noteq> CHR ''{'' \<and> c \<noteq> CHR ''}''"
  from assms have all: "\<forall>c\<in>set body. ?p c" by (simp add: noBraces_def list_all_iff)
  then have "dropWhile ?p (body @ ''}}'' @ t) = ''}}'' @ t"
    by (simp add: dropWhile_append)
  moreover from all have "takeWhile ?p (body @ ''}}'' @ t) = body"
    by (simp add: takeWhile_append)
  ultimately show ?thesis
    by (simp add: matchAt_placeholderRegex)
qed
lemma matchAt_placeholder_SomeD:
  assumes "matchAt placeholderRegex inp s = Some (t, cs)"
  shows "\<exists>body. noBraces body \<and> s = ''{{'' @ body @ ''}}'' @ t \<and> cs = [1 \<mapsto> body]"
proof -
  let ?p = "\<lambda>c. c \<noteq> CHR ''{'' \<and> c \<noteq> CHR ''}''"
  from assms obtain s' where s: "s = ''{{'' @ s'"
    and d: "dropWhile ?p s' = ''}}'' @ t" and cs: "cs = [1 \<mapsto> takeWhile ?p s']"
    by (auto simp: matchAt_placeholderRegex split: list.splits if_splits)
  have "s' = takeWhile ?p s' @ dropWhile ?p s'" by simp
  with d have "s' = takeWhile ?p s' @ ''}}'' @ t" by simp
  moreover have "noBraces (takeWhile ?p s')"
    by (auto simp: noBraces_def list_all_iff dest: set_takeWhileD)
  ultimately show ?thesis using s cs by (intro exI[of _ "takeWhile ?p s'"]) simp
qed

lemma matchAt_placeholder_inp:
  "matchAt placeholderRegex inp s = matchAt placeholderRegex inp' s"
  by (simp add: matchAt_placeholderRegex)



lemma matchAt_placeholder_append:
  assumes "s \<noteq> []" and rest: "rest = ''{{'' @ r"
  shows "matchAt placeholderRegex inp (s @ rest) =
           map_option (\<lambda>(t, cs). (t @ rest, cs)) (matchAt placeholderRegex inp s)"
proof -
  let ?p = "\<lambda>c. c \<noteq> CHR ''{'' \<and> c \<noteq> CHR ''}''"
  from assms obtain c1 s1 where s: "s = c1 # s1" by (cases s) auto
  have dr: "dropWhile ?p rest = rest" using rest by simp
  show ?thesis
  proof (cases s1)
    case Nil
    with s rest show ?thesis by (cases r) (simp_all add: matchAt_placeholderRegex)
  next
    case (Cons c2 s')
    show ?thesis
    proof (cases "\<forall>c\<in>set s'. ?p c")
      case True
      then have d0: "dropWhile ?p s' = []" by simp
      from True have "dropWhile ?p (s' @ rest) = rest" by (simp add: dropWhile_append dr)
      then have d1: "dropWhile ?p (s' @ rest) = CHR ''{'' # CHR ''{'' # r" by (simp add: rest)
      show ?thesis unfolding s Cons
        by (simp add: matchAt_placeholderRegex d0 d1 del: dropWhile_eq_Nil_conv)
    next
      case False
      then obtain d1 ds where c: "dropWhile ?p s' = d1 # ds"
        by (cases "dropWhile ?p s'") auto
      from False have dw: "dropWhile ?p (s' @ rest) = dropWhile ?p s' @ rest"
        by (auto simp: dropWhile_append)
      from False have tw: "takeWhile ?p (s' @ rest) = takeWhile ?p s'"
        by (auto simp: takeWhile_append)
      show ?thesis
      proof (cases ds)
        case Nil
        have "dropWhile ?p (s' @ rest) = d1 # rest"
          by (simp add: dw c Nil)
        then have "dropWhile ?p (s' @ rest) = d1 # CHR ''{'' # CHR ''{'' # r"
          by (simp only: rest append_Cons append_Nil)
        then show ?thesis unfolding s Cons
          by (simp add: matchAt_placeholderRegex c Nil)
      next
        case ds: (Cons d2 t)
        show ?thesis unfolding s Cons
          by (simp add: matchAt_placeholderRegex dw tw c ds)
      qed
    qed
  qed
qed
lemma replaceAll_placeholder_Nil: "replaceAll placeholderRegex f inp [] = Inr []"
  by (rule replaceAll_Nil) (simp add: placeholderRegex_def)

lemma replaceAll_placeholder_append:
  assumes rest: "rest = ''{{'' @ r"
  shows "replaceAll placeholderRegex f inp (s @ rest) =
     (case replaceAll placeholderRegex f inp s of
        Inl e \<Rightarrow> Inl e
      | Inr a \<Rightarrow> (case replaceAll placeholderRegex f inp rest of
                    Inl e \<Rightarrow> Inl e
                  | Inr b \<Rightarrow> Inr (a @ b)))"
proof (induction "length s" arbitrary: s rule: less_induct)
  case less
  show ?case
  proof (cases s)
    case Nil
    then show ?thesis by (simp add: replaceAll_placeholder_Nil split: sum.splits)
  next
    case (Cons c s')
    show ?thesis
    proof (cases "matchAt placeholderRegex inp s")
      case None
      then have n2: "matchAt placeholderRegex inp (c # (s' @ rest)) = None"
        using matchAt_placeholder_append[OF _ rest, of s inp] Cons by simp
      from None Cons have n1: "matchAt placeholderRegex inp (c # s') = None" by simp
      have ih: "replaceAll placeholderRegex f inp (s' @ rest) =
         (case replaceAll placeholderRegex f inp s' of
            Inl e \<Rightarrow> Inl e
          | Inr a \<Rightarrow> (case replaceAll placeholderRegex f inp rest of
                    Inl e \<Rightarrow> Inl e
                  | Inr b \<Rightarrow> Inr (a @ b)))"
        using less[of s'] Cons by simp
      have "replaceAll placeholderRegex f inp (s @ rest) =
              (case replaceAll placeholderRegex f inp (s' @ rest) of
                 Inl e \<Rightarrow> Inl e | Inr u \<Rightarrow> Inr (c # u))"
        using replaceAll_skip[OF n2] Cons by simp
      moreover have "replaceAll placeholderRegex f inp s =
              (case replaceAll placeholderRegex f inp s' of
                 Inl e \<Rightarrow> Inl e | Inr u \<Rightarrow> Inr (c # u))"
        using replaceAll_skip[OF n1] Cons by simp
      ultimately show ?thesis
        by (simp add: ih split: sum.splits)
    next
      case (Some st)
      obtain t cs where st: "st = (t, cs)" by (cases st) auto
      from matchAt_placeholder_SomeD[OF Some[unfolded st]] obtain body where
        body: "noBraces body" "s = ''{{'' @ body @ ''}}'' @ t" "cs = [1 \<mapsto> body]" by auto
      then have lt: "length t < length s" by simp
      have m2: "matchAt placeholderRegex inp (s @ rest) = Some (t @ rest, cs)"
        using matchAt_placeholder_append[OF _ rest, of s inp] Some st Cons by simp
      have lt2: "length (t @ rest) < length (s @ rest)" using lt by simp
      have tk: "take (length (s @ rest) - length (t @ rest)) (s @ rest)
                 = take (length s - length t) s"
        using lt by simp
      show ?thesis
        unfolding replaceAll_match[OF m2 lt2] replaceAll_match[OF Some[unfolded st] lt] tk
          less[OF lt]
        by (simp split: sum.splits)
    qed
  qed
qed

lemma replaceAll_placeholder_inp:
  "replaceAll placeholderRegex f inp s = replaceAll placeholderRegex f inp' s"
proof (induction "length s" arbitrary: s rule: less_induct)
  case less
  show ?case
  proof (cases s)
    case Nil
    then show ?thesis by (simp add: replaceAll_placeholder_Nil)
  next
    case (Cons c s')
    show ?thesis
    proof (cases "matchAt placeholderRegex inp s")
      case None
      then have n1: "matchAt placeholderRegex inp (c # s') = None"
        and n2: "matchAt placeholderRegex inp' (c # s') = None"
        using Cons matchAt_placeholder_inp[of inp s inp'] by simp_all
      show ?thesis
        unfolding Cons replaceAll_skip[OF n1] replaceAll_skip[OF n2]
        using less[of s'] Cons by simp
    next
      case (Some st)
      obtain t cs where st: "st = (t, cs)" by (cases st) auto
      from matchAt_placeholder_SomeD[OF Some[unfolded st]] obtain body where
        body: "noBraces body" "s = ''{{'' @ body @ ''}}'' @ t" "cs = [1 \<mapsto> body]" by auto
      then have lt: "length t < length s" by simp
      have m2: "matchAt placeholderRegex inp' s = Some (t, cs)"
        using Some st matchAt_placeholder_inp[of inp s inp'] by simp
      show ?thesis
        unfolding replaceAll_match[OF m2 lt] replaceAll_match[OF Some[unfolded st] lt]
          less[OF lt] by simp
    qed
  qed
qed

lemma replaceAll_placeholder_here:
  assumes "noBraces body"
  shows "replaceAll placeholderRegex f inp (''{{'' @ body @ ''}}'' @ t) =
     (case f (''{{'' @ body @ ''}}'') [1 \<mapsto> body] of
        Inl e \<Rightarrow> Inl e
      | Inr r \<Rightarrow> (case replaceAll placeholderRegex f inp t of
                    Inl e \<Rightarrow> Inl e
                  | Inr u \<Rightarrow> Inr (r @ u)))"
proof -
  have lt: "length t < length (''{{'' @ body @ ''}}'' @ t)" by simp
  have "take (length (a @ t) - length t) (a @ t) = a" for a :: string by simp
  from this[of "''{{'' @ body @ ''}}''"]
  have tk: "take (length (''{{'' @ body @ ''}}'' @ t) - length t) (''{{'' @ body @ ''}}'' @ t)
              = ''{{'' @ body @ ''}}''" by (simp only: append_assoc)
  show ?thesis
    unfolding replaceAll_match[OF matchAt_placeholder_Some[OF assms] lt] tk by simp
qed

lemma containsClose_append: "containsClose (a @ ''}}'' @ b)"
  by (induction a rule: containsClose.induct) auto

lemma replaceAll_placeholder_noClose:
  "\<not> containsClose s \<Longrightarrow> replaceAll placeholderRegex f inp s = Inr s"
proof (induction s)
  case Nil
  show ?case by (simp add: replaceAll_placeholder_Nil)
next
  case (Cons c s)
  have "matchAt placeholderRegex inp (c # s) = None"
  proof (cases "matchAt placeholderRegex inp (c # s)")
    case (Some st)
    obtain t cs where st: "st = (t, cs)" by (cases st) auto
    from matchAt_placeholder_SomeD[OF Some[unfolded st]] obtain body where
      "c # s = (''{{'' @ body) @ ''}}'' @ t" by auto
    then have "containsClose (c # s)" using containsClose_append[of "''{{'' @ body" t] by simp
    with Cons.prems show ?thesis by simp
  qed simp
  moreover from Cons.prems have "\<not> containsClose s" by (cases s) auto
  ultimately show ?case using Cons.IH by (simp add: replaceAll_skip)
qed


lemma format_scan:
  "formatStringWithData h (Some t) data =
     replaceAll placeholderRegex (substitute h (dataToUse h data)) inp t"
proof (cases t)
  case Nil
  then show ?thesis by (simp add: formatStringWithData_def replaceAll_placeholder_Nil)
next
  case (Cons c cs)
  then show ?thesis
    using replaceAll_placeholder_inp[of "substitute h (dataToUse h data)" t t inp]
    by (simp add: formatStringWithData_def)
qed

lemma format_placeholder:
  assumes "noBraces body"
  shows "formatStringWithData h (Some (pre @ ''{{'' @ body @ ''}}'' @ post)) data =
     andThen (formatStringWithData h (Some pre) data) (\<lambda>a.
       andThen (andThen (replacer h (dataToUse h data) body) (ToString h)) (\<lambda>b.
         andThen (formatStringWithData h (Some post) data) (\<lambda>c. Inr (a @ b @ c))))"
proof -
  let ?f = "substitute h (dataToUse h data)"
  have "replaceAll placeholderRegex ?f [] (pre @ (''{{'' @ body @ ''}}'' @ post)) =
     (case replaceAll placeholderRegex ?f [] pre of
        Inl e \<Rightarrow> Inl e
      | Inr a \<Rightarrow> (case replaceAll placeholderRegex ?f [] (''{{'' @ body @ ''}}'' @ post) of
                    Inl e \<Rightarrow> Inl e
                  | Inr b \<Rightarrow> Inr (a @ b)))"
    by (rule replaceAll_placeholder_append[where r = "body @ ''}}'' @ post"]) simp
  moreover have "?f (''{{'' @ body @ ''}}'') [1 \<mapsto> body] =
      andThen (replacer h (dataToUse h data) body) (ToString h)"
    by (simp add: substitute_def)
  ultimately show ?thesis
    unfolding format_scan[where inp = "[]"] replaceAll_placeholder_here[OF assms]
    by (simp add: andThen_def split: sum.splits)
qed

lemma format_unterminated:
  assumes "\<not> containsClose rest"
  shows "formatStringWithData h (Some (pre @ ''{{'' @ rest)) data =
     andThen (formatStringWithData h (Some pre) data) (\<lambda>a. Inr (a @ ''{{'' @ rest))"
proof -
  let ?f = "substitute h (dataToUse h data)"
  from assms have "\<not> containsClose (''{{'' @ rest)" by (cases rest) auto
  then have "replaceAll placeholderRegex ?f [] (''{{'' @ rest) = Inr (''{{'' @ rest)"
    by (rule replaceAll_placeholder_noClose)
  moreover have "replaceAll placeholderRegex ?f [] (pre @ (''{{'' @ rest)) =
     (case replaceAll placeholderRegex ?f [] pre of
        Inl e \<Rightarrow> Inl e
      | Inr a \<Rightarrow> (case replaceAll placeholderRegex ?f [] (''{{'' @ rest) of
                    Inl e \<Rightarrow> Inl e
                  | Inr b \<Rightarrow> Inr (a @ b)))"
    by (rule replaceAll_placeholder_append[where r = rest]) simp
  ultimately show ?thesis
    unfolding format_scan[where inp = "[]"]
    by (simp add: andThen_def split: sum.splits)
qed

section \<open>The placeholder evaluator\<close>

lemma replacer_plain:
  assumes "regexExec transformationRegex (trim body) (trim body) = None"
  shows "andThen (replacer h d body) (ToString h) =
     (let value = resolveDataPath h d (trim body)
      in if value = Undefined \<or> value = Json JNull then Inr [] else ToString h value)"
proof (cases "trim body = []")
  case True
  then show ?thesis by (simp add: replacer_def resolveDataPath_def andThen_def)
next
  case False
  with assms show ?thesis
    by (simp add: replacer_def andThen_def Let_def split: sum.splits)
qed

lemma minLen_transformationRegex: "minLen transformationRegex = 3"
  by (simp add: transformationRegex_def)

lemma transformationRegex_nonempty:
  assumes "regexExec transformationRegex t t = Some (n, r, tm)"
  shows "t \<noteq> []"
  using regexExec_consumes[OF assms] by (auto simp: minLen_transformationRegex)

lemma replacer_unknown:
  assumes "regexExec transformationRegex (trim body) (trim body) = Some (n, r, tm)"
    and "tm 1 = Some name" and "\<not> hasOwnProperty name"
  shows "replacer h d body = Inr (Json (JStr ''#ERROR''))"
  using assms transformationRegex_nonempty[OF assms(1)]
  by (simp add: replacer_def)


section \<open>The transformations and the resolver\<close>

lemma splitFrom_nonempty: "splitFrom sep s cur \<noteq> []"
  by (induction sep s cur rule: splitFrom.induct) auto

lemma join_Cons: "xs \<noteq> [] \<Longrightarrow> join (x # xs) sep = x @ sep @ join xs sep"
  by (cases xs) auto

lemma join_splitFrom:
  "sep \<noteq> [] \<Longrightarrow>
     join (splitFrom sep s cur) replacement = rev cur @ globalLiteralReplace sep replacement s"
proof (induction sep s cur rule: splitFrom.induct)
  case (1 sep cur)
  show ?case by simp
next
  case (2 sep c cs cur)
  show ?case
  proof (cases "startsWith (c # cs) sep")
    case True
    with 2 show ?thesis
      by (simp add: join_Cons splitFrom_nonempty)
  next
    case False
    with 2 show ?thesis by simp
  qed
qed

lemma join_split:
  "search \<noteq> [] \<Longrightarrow> join (split s search) replacement = globalLiteralReplace search replacement s"
  by (simp add: split_def join_splitFrom)

lemma replaceLoop_pairs:
  "replaceLoop h s0 (map (\<lambda>(search, replacement). Json (JArr [JStr search, JStr replacement])) pairs) =
     Inr (foldl (\<lambda>acc (search, replacement).
                  if search = [] then acc else globalLiteralReplace search replacement acc) s0 pairs)"
proof (induction pairs arbitrary: s0)
  case Nil
  show ?case by simp
next
  case (Cons p pairs)
  obtain search replacement where p: "p = (search, replacement)" by (cases p) auto
  show ?case
  proof (cases "search = []")
    case True
    with p Cons show ?thesis by simp
  next
    case False
    with p Cons show ?thesis by (simp add: join_split)
  qed
qed













lemma format_date_number:
  "formatStringWithData h (Some ''{{date(t)}}'') (Some (JObj [(''t'', JNum v)])) =
     Inr (case numTimeClip h (if numLt1e11 h v then numMul1000 h v else v) of
            None \<Rightarrow> ''#ERROR''
          | Some t \<Rightarrow> toLocaleDateString h t)"
  by (simp add: ev split: option.splits)

lemma sampleHost_fields:
  "numLt1e11 sampleHost n = (n < 100000000000)"
  "numMul1000 sampleHost n = n * 1000"
  "numTimeClip sampleHost n = (if \<bar>n\<bar> \<le> 8640000000000000 then Some n else None)"
  "toLocaleDateString sampleHost t = shortDate t"
  by (simp_all add: sampleHost_def)

lemma shortDate_values:
  "shortDate 1678886400000 = ''3/15/2023''"
  "shortDate 1000000 = ''1/1/1970''"
  "shortDate 1000000000 = ''1/12/1970''"
  by code_simp+

section \<open>The transformation pattern\<close>

lemma m_suffix:
  "m inp rx r cs k = Some st \<Longrightarrow> \<exists>r' cs' zs. k (r', cs') = Some st \<and> r = zs @ r'"
proof (induction inp rx r cs k arbitrary: st rule: m.induct)
  case (2 inp p c r cs k)
  then have "k (r, cs) = Some st" by (simp split: if_splits)
  then show ?case by (intro exI[of _ r] exI[of _ cs] exI[of _ "[c]"]) simp
next
  case (3 inp a b r cs k)
  from "3.prems" have "m inp a r cs (\<lambda>(r', cs'). m inp b r' cs' k) = Some st" by simp
  from "3.IH"(2)[OF this] obtain r1 cs1 z1 where
    h1: "m inp b r1 cs1 k = Some st" and l1: "r = z1 @ r1" by auto
  from "3.IH"(1)[OF h1] obtain r2 cs2 z2 where
    "k (r2, cs2) = Some st" and "r1 = z2 @ r2" by auto
  with l1 show ?case by (intro exI[of _ r2] exI[of _ cs2] exI[of _ "z1 @ z2"]) simp
next
  case (4 inp a b r cs k)
  show ?case
  proof (cases "m inp a r cs k")
    case None
    with "4.prems" have "m inp b r cs k = Some st" by simp
    from "4.IH"(2)[OF None this] show ?thesis .
  next
    case (Some x)
    with "4.prems" have "m inp a r cs k = Some st" by simp
    from "4.IH"(1)[OF this] show ?thesis .
  qed
next
  case (6 inp p c r cs k)
  have here: "k (c # r, cs) = Some st \<Longrightarrow> ?case"
    by (intro exI[of _ "c # r"] exI[of _ cs] exI[of _ "[]"]) simp
  show ?case
  proof (cases "p c")
    case False
    with "6.prems" here show ?thesis by simp
  next
    case True
    show ?thesis
    proof (cases "m inp (Star p) r cs k")
      case None
      with True "6.prems" here show ?thesis by simp
    next
      case (Some x)
      with True "6.prems" have "m inp (Star p) r cs k = Some st" by simp
      from "6.IH"[OF True this] obtain r' cs' zs where
        "k (r', cs') = Some st" "r = zs @ r'" by auto
      then show ?thesis by (intro exI[of _ r'] exI[of _ cs'] exI[of _ "c # zs"]) simp
    qed
  qed
next
  case (8 inp p c r cs k)
  show ?case
  proof (cases "k (c # r, cs)")
    case (Some x)
    with "8.prems" show ?thesis by (intro exI[of _ "c # r"] exI[of _ cs] exI[of _ "[]"]) simp
  next
    case None
    with "8.prems" have pc: "p c" and "m inp (LazyStar p) r cs k = Some st"
      by (auto split: if_splits)
    from "8.IH"[OF None pc this(2)] obtain r' cs' zs where
      "k (r', cs') = Some st" "r = zs @ r'" by auto
    then show ?thesis by (intro exI[of _ r'] exI[of _ cs'] exI[of _ "c # zs"]) simp
  qed
next
  case (9 inp n a r cs k)
  from "9.prems"
  have "m inp a r cs (\<lambda>(r', cs'). k (r', cs'(n \<mapsto> take (length r - length r') r))) = Some st"
    by simp
  from "9.IH"[OF this] show ?case by fastforce
qed (auto split: if_splits intro: exI[of _ "[]"])

lemma matchAt_transformation_paren:
  assumes "matchAt transformationRegex inp r = Some st"
  shows "CHR ''('' \<in> set r"
proof -
  let ?tail = "Seq (Chr CHR ''('') (Seq (Group 2 (Star isDot)) (Seq (Chr CHR '')'') Eol))"
  from assms have "m inp (Group 1 (Plus isWord)) r (\<lambda>_. None)
      (\<lambda>(r', cs'). m inp ?tail r' cs' Some) = Some st"
    by (simp add: matchAt_def transformationRegex_def split: if_splits)
  from m_suffix[OF this] obtain r' cs' zs where
    t: "m inp ?tail r' cs' Some = Some st" and r: "r = zs @ r'" by auto
  from t have "r' \<noteq> [] \<and> hd r' = CHR ''(''" by (cases r') (auto split: if_splits)
  with r show ?thesis by (cases r') auto
qed

lemma no_paren_not_call:
  "CHR ''('' \<notin> set rest \<Longrightarrow> regexExec transformationRegex inp rest = None"
proof (induction rest)
  case Nil
  then show ?case
    using matchAt_transformation_paren[of inp "[]"]
    by (cases "matchAt transformationRegex inp []") (auto simp: regexExec.simps[of _ inp "[]"])
next
  case (Cons c rest)
  then have "matchAt transformationRegex inp (c # rest) = None"
    using matchAt_transformation_paren[of inp "c # rest"]
    by (cases "matchAt transformationRegex inp (c # rest)") auto
  with Cons show ?case by (simp add: regexExec.simps[of _ inp "c # rest"])
qed

lemma regexExec_here:
  "matchAt rx inp rest = Some (r, cs) \<Longrightarrow> regexExec rx inp rest = Some (0, r, cs)"
  by (simp add: regexExec.simps[of rx inp rest])

lemma m_Star_stop:
  assumes "list_all p xs" and "r = [] \<or> \<not> p (hd r)" and "k (r, cs) = Some st"
  shows "m inp (Star p) (xs @ r) cs k = Some st"
  using assms
proof (induction xs)
  case Nil
  then show ?case by (cases r) auto
qed simp

lemma m_Star_last:
  assumes "list_all p xs" and "p c" and "k ([], cs) = None" and "k ([c], cs) = Some st"
  shows "m inp (Star p) (xs @ [c]) cs k = Some st"
  using assms by (induction xs) simp_all

lemma transformation_call_matches:
  assumes "name \<noteq> []" and "list_all isWord name" and "list_all isDot args"
  shows "regexExec transformationRegex (name @ ''('' @ args @ '')'') (name @ ''('' @ args @ '')'')
           = Some (0, [], [1 \<mapsto> name, 2 \<mapsto> args])"
proof -
  let ?inp = "name @ ''('' @ args @ '')''"
  from assms obtain w ws where name: "name = w # ws" by (cases name) auto
  with assms have w: "isWord w" and ws: "list_all isWord ws" by simp_all
  let ?r0 = "args @ '')''"
  let ?k3 = "\<lambda>cs. \<lambda>(r', cs'). m ?inp (Seq (Chr CHR '')'') Eol) r'
                 (cs'(2 \<mapsto> take (length ?r0 - length r') ?r0)) Some"
  have dot: "isDot CHR '')''" by (simp add: isDot_def)
  have g2: "m ?inp (Star isDot) (args @ [CHR '')'']) cs (?k3 cs) = Some ([], cs(2 \<mapsto> args))" for cs
    using m_Star_last[where p = isDot and xs = args and c = "CHR '')''" and k = "?k3 cs"
        and cs = cs and inp = ?inp and st = "([], cs(2 \<mapsto> args))", OF assms(3) dot]
    by simp
  let ?k1 = "\<lambda>(r', cs'). m ?inp (Seq (Chr CHR ''('') (Seq (Group 2 (Star isDot)) (Seq (Chr CHR '')'') Eol)))
                 r' (cs'(1 \<mapsto> take (length ?inp - length r') ?inp)) Some"
  have nw: "\<not> isWord CHR ''(''" by (simp add: isWord_def)
  have tk: "take (length ?inp - length (''('' @ ?r0)) ?inp = name" by simp
  have k1: "?k1 (''('' @ ?r0, Map.empty) = Some ([], [1 \<mapsto> name, 2 \<mapsto> args])"
    using g2[of "[1 \<mapsto> name]"] tk by simp
  have "m ?inp (Star isWord) (ws @ (''('' @ ?r0)) Map.empty ?k1 = Some ([], [1 \<mapsto> name, 2 \<mapsto> args])"
    using m_Star_stop[where p = isWord and xs = ws and r = "''('' @ ?r0" and k = ?k1
        and cs = Map.empty and inp = ?inp, OF ws _ k1]
    by (simp add: nw)
  then have "matchAt transformationRegex ?inp ?inp = Some ([], [1 \<mapsto> name, 2 \<mapsto> args])"
    using w name by (simp add: matchAt_def transformationRegex_def)
  then show ?thesis by (rule regexExec_here)
qed

section \<open>What can raise\<close>

lemma m_sets_group:
  "m inp rx r cs k = Some st \<Longrightarrow>
     \<exists>r' cs'. k (r', cs') = Some st \<and> (cs n \<noteq> None \<or> setsGroup n rx \<longrightarrow> cs' n \<noteq> None)"
proof (induction inp rx r cs k arbitrary: st rule: m.induct)
  case (3 inp a b r cs k)
  from "3.prems" have "m inp a r cs (\<lambda>(r', cs'). m inp b r' cs' k) = Some st" by simp
  from "3.IH"(2)[OF this] obtain r1 cs1 where
    h1: "m inp b r1 cs1 k = Some st"
    and l1: "cs n \<noteq> None \<or> setsGroup n a \<longrightarrow> cs1 n \<noteq> None" by auto
  from "3.IH"(1)[OF h1] obtain r2 cs2 where
    "k (r2, cs2) = Some st" and "cs1 n \<noteq> None \<or> setsGroup n b \<longrightarrow> cs2 n \<noteq> None" by auto
  with l1 show ?case by (intro exI[of _ r2] exI[of _ cs2]) auto
next
  case (4 inp a b r cs k)
  show ?case
  proof (cases "m inp a r cs k")
    case None
    with "4.prems" have "m inp b r cs k = Some st" by simp
    from "4.IH"(2)[OF None this] show ?thesis by fastforce
  next
    case (Some x)
    with "4.prems" have "m inp a r cs k = Some st" by simp
    from "4.IH"(1)[OF this] show ?thesis by fastforce
  qed
next
  case (6 inp p c r cs k)
  show ?case
  proof (cases "p c")
    case False
    with "6.prems" show ?thesis by (intro exI[of _ "c # r"] exI[of _ cs]) simp
  next
    case True
    show ?thesis
    proof (cases "m inp (Star p) r cs k")
      case None
      with True "6.prems" show ?thesis by (intro exI[of _ "c # r"] exI[of _ cs]) simp
    next
      case (Some x)
      with True "6.prems" have "m inp (Star p) r cs k = Some st" by simp
      from "6.IH"[OF True this] show ?thesis by fastforce
    qed
  qed
next
  case (8 inp p c r cs k)
  show ?case
  proof (cases "k (c # r, cs)")
    case (Some x)
    with "8.prems" show ?thesis by (intro exI[of _ "c # r"] exI[of _ cs]) simp
  next
    case None
    with "8.prems" have pc: "p c" and "m inp (LazyStar p) r cs k = Some st"
      by (auto split: if_splits)
    from "8.IH"[OF None pc this(2)] show ?thesis by fastforce
  qed
next
  case (9 inp i a r cs k)
  from "9.prems"
  have "m inp a r cs (\<lambda>(r', cs'). k (r', cs'(i \<mapsto> take (length r - length r') r))) = Some st"
    by simp
  from "9.IH"[OF this] obtain r' cs' where
    k: "k (r', cs'(i \<mapsto> take (length r - length r') r)) = Some st"
    and c: "cs n \<noteq> None \<or> setsGroup n a \<longrightarrow> cs' n \<noteq> None" by auto
  let ?cs = "cs'(i \<mapsto> take (length r - length r') r)"
  from c have "cs n \<noteq> None \<or> setsGroup n (Group i a) \<longrightarrow> ?cs n \<noteq> None"
    by (cases "i = n") simp_all
  with k show ?case by blast
qed (auto split: if_splits)

lemma regexExec_sets_group:
  "regexExec rx inp rest = Some (n, rest', cs) \<Longrightarrow> setsGroup i rx \<Longrightarrow> cs i \<noteq> None"
proof (induction rest arbitrary: n)
  case Nil
  then show ?case
    using m_sets_group[of inp rx "[]" "\<lambda>_. None" Some "(rest', cs)" i]
    by (auto simp: regexExec.simps[of rx inp "[]"] matchAt_def split: option.splits)
next
  case (Cons c rest)
  show ?case
  proof (cases "matchAt rx inp (c # rest)")
    case (Some st)
    with Cons.prems show ?thesis
      using m_sets_group[of inp rx "c # rest" "\<lambda>_. None" Some "(rest', cs)" i]
      by (auto simp: regexExec.simps[of rx inp "c # rest"] matchAt_def)
  next
    case None
    with Cons.prems obtain n' where "regexExec rx inp rest = Some (n', rest', cs)"
      by (auto simp: regexExec.simps[of rx inp "c # rest"])
    with Cons show ?thesis by blast
  qed
qed

lemma arrayLoop_returns: "\<exists>arr. arrayLoop inner rest = Inr arr"
proof (induction inner rest rule: arrayLoop.induct)
  case (1 inner rest)
  show ?case
  proof (cases "regexExec arrRegex inner rest")
    case None
    then show ?thesis by (simp add: arrayLoop.simps[of inner rest])
  next
    case (Some x)
    obtain n rest' cs where x: "x = (n, rest', cs)" by (cases x) auto
    from regexExec_sets_group[OF Some[unfolded x], of 1]
    obtain g where g: "cs 1 = Some g" by (auto simp: arrRegex_def)
    from 1[OF Some x[symmetric] refl g refl refl] obtain arr where
      "arrayLoop inner rest' = Inr arr" by auto
    with Some x g show ?thesis by (simp add: arrayLoop.simps[of inner rest] Let_def)
  qed
qed

lemma parseToken_returns: "\<exists>arg. parseToken token = Inr arg"
  using arrayLoop_returns[of "trim (slice token 1 (- 1))" "trim (slice token 1 (- 1))"]
  by (auto simp: parseToken_def andThen_def Let_def)

lemma argsLoop_returns: "\<exists>args. argsLoop argsString rest = Inr args"
proof (induction argsString rest rule: argsLoop.induct)
  case (1 argsString rest)
  show ?case
  proof (cases "regexExec argsRegex argsString rest")
    case None
    then show ?thesis by (simp add: argsLoop.simps[of argsString rest])
  next
    case (Some x)
    obtain n rest' cs where x: "x = (n, rest', cs)" by (cases x) auto
    from regexExec_sets_group[OF Some[unfolded x], of 1]
    obtain g where g: "cs 1 = Some g" by (auto simp: argsRegex_def)
    obtain arg where arg: "parseToken (trim g) = Inr arg" using parseToken_returns by blast
    from 1[OF Some x[symmetric] refl g arg] obtain args where
      "argsLoop argsString rest' = Inr args" by auto
    with Some x g arg show ?thesis by (simp add: argsLoop.simps[of argsString rest])
  qed
qed

lemma parseTransformationArgs_returns: "\<exists>args. parseTransformationArgs argsString = Inr args"
  by (simp add: parseTransformationArgs_def argsLoop_returns)

lemma jsonToString_returns:
  "noOwnToString j \<Longrightarrow> \<exists>s. jsonToString h j = Inr s"
  "list_all noOwnToString xs \<Longrightarrow> \<exists>s. joinElements h xs = Inr s"
proof (induction h j and h xs rule: jsonToString_joinElements.induct)
  case (8 h x xs)
  from "8.prems" have px: "noOwnToString x" and pxs: "list_all noOwnToString xs" by simp_all
  have "\<exists>s. (case x of JNull \<Rightarrow> Inr [] | _ \<Rightarrow> jsonToString h x) = Inr s"
    using "8.IH"(1-5) px by (cases x) simp_all
  then obtain s where s: "(case x of JNull \<Rightarrow> Inr [] | _ \<Rightarrow> jsonToString h x) = Inr s" by blast
  have step: "joinElements h (x # xs) =
      (case xs of [] \<Rightarrow> Inr s
       | _ # _ \<Rightarrow> (case joinElements h xs of Inl e \<Rightarrow> Inl e | Inr t \<Rightarrow> Inr (s @ '','' @ t)))"
    using s by simp
  show ?case
  proof (cases xs)
    case Nil
    show ?thesis unfolding step by (simp add: Nil)
  next
    case (Cons y ys)
    from "8.IH"(6)[OF s Cons pxs] obtain t where t: "joinElements h xs = Inr t" by blast
    show ?thesis unfolding step t by (simp add: Cons)
  qed
qed auto

lemma ToString_returns: "safeValue v \<Longrightarrow> \<exists>s. ToString h v = Inr s"
  by (cases v) (auto simp: jsonToString_returns)

lemma firstSome_SomeD: "firstSome f xs = Some y \<Longrightarrow> \<exists>x\<in>set xs. f x = Some y"
  by (induction xs) (auto split: option.splits)

lemma noOwnToString_nth: "list_all noOwnToString xs \<Longrightarrow> i < length xs \<Longrightarrow> noOwnToString (xs ! i)"
  by (simp add: list_all_length)

lemma find_upt_less: "find P [0..<n] = Some i \<Longrightarrow> i < n"
  by (auto simp: find_Some_iff)

lemma ownProperty_safe:
  assumes "safeValue recv" and "safeValue obj" and "ownProperty h recv obj part = Some w"
  shows "safeValue w"
proof (cases obj)
  case (Json j)
  show ?thesis
  proof (cases j)
    case (JArr xs)
    with Json assms show ?thesis
      by (auto simp: list_all_length split: if_splits dest!: find_upt_less)
  next
    case (JObj kvs)
    with Json assms obtain v where "map_of kvs part = Some v" "w = Json v" by auto
    moreover then have "(part, v) \<in> set kvs" by (auto dest: map_of_SomeD)
    ultimately show ?thesis using Json JObj assms(2) by (auto simp: list_all_iff)
  qed (use Json assms in auto)
next
  case ObjectPrototype
  with assms show ?thesis
    by (cases recv rule: prototypeOf.cases) (auto simp: builtin_def split: if_splits)
next
  case ArrayPrototype
  with assms show ?thesis by (auto simp: builtin_def split: if_splits)
qed (use assms in auto)

lemma prototypeChain_safe: "safeValue v \<Longrightarrow> obj \<in> set (prototypeChain v) \<Longrightarrow> safeValue obj"
  by (cases v rule: prototypeChain.cases) auto

lemma getProperty_safe:
  "safeValue v \<Longrightarrow> getProperty h v part = Some w \<Longrightarrow> safeValue w"
  unfolding getProperty_def
  by (blast dest: firstSome_SomeD intro: ownProperty_safe prototypeChain_safe)

lemma walk_safe: "safeValue v \<Longrightarrow> safeValue (walk h v parts)"
  by (induction parts arbitrary: v) (auto split: option.splits dest: getProperty_safe)

lemma resolveDataPath_safe: "noOwnToString d \<Longrightarrow> safeValue (resolveDataPath h d path)"
  by (simp add: resolveDataPath_def walk_safe)

lemma argValue_safe: "safeValue (argValue a)"
  by (cases a) (simp_all add: list_all_iff)

lemma dataValueOf_returns:
  assumes "noOwnToString d" and "list_all safeValue args"
  shows "\<exists>v. dataValueOf h d args = Inr v \<and> safeValue v"
proof -
  let ?keyArg = "case args of [] \<Rightarrow> Json (JStr []) | a # _ \<Rightarrow> a"
  have "safeValue ?keyArg" using assms(2) by (cases args) auto
  then obtain p where "ToString h ?keyArg = Inr p" using ToString_returns by blast
  then show ?thesis
    using resolveDataPath_safe[OF assms(1)]
    by (auto simp: dataValueOf_def andThen_def Let_def)
qed

lemma callTransformation_safe:
  assumes "safeValue v" and "list_all safeValue args"
    and "callTransformation h name v args = Inr w"
  shows "safeValue w"
proof -
  have "safeValue (case args of [] \<Rightarrow> Undefined | a # _ \<Rightarrow> a)"
    using assms(2) by (cases args) auto
  then show ?thesis
    using assms(3)
    by (auto simp: callTransformation_def defaultTransformations_default_def
        defaultTransformations_date_def defaultTransformations_replace_def andThen_def Let_def
        split: if_splits sum.splits)
qed

lemma replacer_returns:
  assumes "noOwnToString d"
  shows "\<exists>v. replacer h d body = Inr v \<and> safeValue v"
proof (cases "trim body = []")
  case True
  then show ?thesis by (simp add: replacer_def)
next
  case False
  show ?thesis
  proof (cases "regexExec transformationRegex (trim body) (trim body)")
    case None
    let ?v = "resolveDataPath h d (trim body)"
    obtain s where "ToString h ?v = Inr s"
      using ToString_returns[OF resolveDataPath_safe[OF assms]] by blast
    with None False show ?thesis by (simp add: replacer_def andThen_def Let_def)
  next
    case (Some x)
    obtain n r tm where x: "x = (n, r, tm)" by (cases x) auto
    show ?thesis
    proof (cases "tm 1")
      case None
      with Some x False show ?thesis by (simp add: replacer_def)
    next
      case name: (Some name)
      show ?thesis
      proof (cases "hasOwnProperty name")
        case False
        with Some x name \<open>trim body \<noteq> []\<close> show ?thesis by (simp add: replacer_def)
      next
        case True
        let ?a = "case tm 2 of None \<Rightarrow> ''undefined'' | Some a \<Rightarrow> a"
        obtain parsed where p: "parseTransformationArgs ?a = Inr parsed"
          using parseTransformationArgs_returns by blast
        have sa: "list_all safeValue (map argValue parsed)"
          by (simp add: list_all_iff argValue_safe)
        then obtain v where v: "dataValueOf h d (map argValue parsed) = Inr v" "safeValue v"
          using dataValueOf_returns[OF assms] by blast
        have sd: "list_all safeValue (drop 1 (map argValue parsed))"
          by (simp add: drop_map list_all_iff argValue_safe)
        show ?thesis
        proof (cases "callTransformation h name v (drop 1 (map argValue parsed))")
          case (Inl e)
          with Some x name True p v \<open>trim body \<noteq> []\<close> show ?thesis
            by (simp add: replacer_def andThen_def)
        next
          case (Inr w)
          with callTransformation_safe[OF v(2) sd Inr] Some x name True p v \<open>trim body \<noteq> []\<close>
          show ?thesis by (simp add: replacer_def andThen_def)
        qed
      qed
    qed
  qed
qed

lemma substitute_returns:
  assumes "noOwnToString d" and "cs 1 = Some body"
  shows "\<exists>s. substitute h d matched cs = Inr s"
proof -
  obtain v where "replacer h d body = Inr v" "safeValue v"
    using replacer_returns[OF assms(1)] by blast
  then show ?thesis
    using ToString_returns[of v h] assms(2) by (auto simp: substitute_def andThen_def)
qed

lemma replaceAll_placeholder_returns:
  assumes "\<And>matched body. \<exists>s. f matched [1 \<mapsto> body] = Inr s"
  shows "\<exists>s. replaceAll placeholderRegex f inp rest = Inr s"
proof (induction "length rest" arbitrary: rest rule: less_induct)
  case less
  show ?case
  proof (cases rest)
    case Nil
    then show ?thesis by (simp add: replaceAll_placeholder_Nil)
  next
    case (Cons c rest')
    show ?thesis
    proof (cases "matchAt placeholderRegex inp rest")
      case None
      then have n: "matchAt placeholderRegex inp (c # rest') = None" using Cons by simp
      obtain s where "replaceAll placeholderRegex f inp rest' = Inr s"
        using less[of rest'] Cons by auto
      then show ?thesis unfolding Cons replaceAll_skip[OF n] by simp
    next
      case (Some st)
      obtain t cs where st: "st = (t, cs)" by (cases st) auto
      from matchAt_placeholder_SomeD[OF Some[unfolded st]] obtain body where
        body: "noBraces body" "rest = ''{{'' @ body @ ''}}'' @ t" "cs = [1 \<mapsto> body]" by auto
      then have lt: "length t < length rest" by simp
      obtain s where s: "f (''{{'' @ body @ ''}}'') [1 \<mapsto> body] = Inr s" using assms by blast
      obtain u where u: "replaceAll placeholderRegex f inp t = Inr u" using less[OF lt] by blast
      show ?thesis
        unfolding body(2) replaceAll_placeholder_here[OF body(1)] s u by simp
    qed
  qed
qed

lemma format_total_without_own_toString:
  assumes "case data of None \<Rightarrow> True | Some d \<Rightarrow> noOwnToString d"
  shows "\<exists>s. formatStringWithData h template data = Inr s"
proof (cases template)
  case None
  then show ?thesis by (simp add: formatStringWithData_def)
next
  case (Some t)
  have "noOwnToString (dataToUse h data)"
    using assms by (auto simp: dataToUse_def split: option.splits)
  then have "\<exists>s. substitute h (dataToUse h data) matched [1 \<mapsto> body] = Inr s" for matched body
    by (rule substitute_returns) simp
  then have "\<exists>s. replaceAll placeholderRegex (substitute h (dataToUse h data)) t t = Inr s"
    by (rule replaceAll_placeholder_returns)
  with Some show ?thesis by (simp add: formatStringWithData_def)
qed


text \<open>
  The plain key path branch: the placeholder becomes the empty string for \<open>undefined\<close>
  and \<open>null\<close>, and the string conversion of the resolved value otherwise.
\<close>

lemma plain_key_path_substitution:
  assumes "noBraces body"
    and "regexExec transformationRegex (trim body) (trim body) = None"
  shows "formatStringWithData h (Some (pre @ ''{{'' @ body @ ''}}'' @ post)) data =
     andThen (formatStringWithData h (Some pre) data) (\<lambda>a.
       andThen (let value = resolveDataPath h (dataToUse h data) (trim body)
                in if value = Undefined \<or> value = Json JNull then Inr []
                   else ToString h value) (\<lambda>b.
         andThen (formatStringWithData h (Some post) data) (\<lambda>c. Inr (a @ b @ c))))"
  unfolding format_placeholder[OF assms(1)] replacer_plain[OF assms(2)] by (rule refl)

lemma plain_key_path_substitution_example:
  "noBraces '' user.name '' \<and>
   regexExec transformationRegex (trim '' user.name '') (trim '' user.name '') = None \<and>
   resolveDataPath sampleHost (JObj [(''user'', JObj [(''name'', JStr ''Ann''), (''age'', JNull)])])
      ''user.name'' = Json (JStr ''Ann'') \<and>
   formatStringWithData sampleHost (Some (''Hi '' @ ''{{'' @ '' user.name '' @ ''}}'' @ ''{{user.age}}{{nobody}}!''))
     (Some (JObj [(''user'', JObj [(''name'', JStr ''Ann''), (''age'', JNull)])])) = Inr ''Hi Ann!''"
proof -
  let ?d = "Some (JObj [(''user'', JObj [(''name'', JStr ''Ann''), (''age'', JNull)])])"
  have a: "noBraces '' user.name ''" by (simp add: noBraces_def)
  have b: "regexExec transformationRegex (trim '' user.name '') (trim '' user.name '') = None"
    by (simp add: ev)
  have c: "formatStringWithData sampleHost (Some ''Hi '') ?d = Inr ''Hi ''" by code_simp
  have d: "formatStringWithData sampleHost (Some ''{{user.age}}{{nobody}}!'') ?d = Inr ''!''"
    by code_simp
  have e: "resolveDataPath sampleHost (JObj [(''user'', JObj [(''name'', JStr ''Ann''), (''age'', JNull)])])
      ''user.name'' = Json (JStr ''Ann'')" by (simp add: ev)
  have t: "trim '' user.name '' = ''user.name''" by (simp add: trim_def isSpace_def)
  have u: "dataToUse sampleHost ?d = JObj [(''user'', JObj [(''name'', JStr ''Ann''), (''age'', JNull)])]"
    by (simp add: dataToUse_def)
  from plain_key_path_substitution[OF a b, of sampleHost "''Hi ''" "''{{user.age}}{{nobody}}!''" ?d]
  show ?thesis using a b e unfolding c d t u e by (simp add: andThen_def)
qed

lemma plain_key_path_conversions:
  "formatStringWithData sampleHost (Some ''{{n}}|{{b}}|{{s}}|{{a}}|{{o}}|{{z}}|{{m}}|{{a.length}}'')
     (Some (JObj [(''n'', JNum (-42)), (''b'', JBool True), (''s'', JStr ''text''),
                  (''a'', JArr [JStr ''x'', JNull, JNum 7, JArr [JBool False]]),
                  (''o'', JObj [(''p'', JNum 1)]), (''z'', JNull)]))
   = Inr ''-42|true|text|x,,7,false|[object Object]|||4''"
  by code_simp

section \<open>Claims\<close>

text \<open>
  C1. A placeholder whose trimmed body is a plain key path is to be replaced by the
  display string of the resolved value whenever that value is present and not \<open>null\<close>.
  For a present object with an own property \<open>toString\<close> the program raises instead:
  the body \<open>user\<close> is no transformation call, the path resolves to the object, and the
  call ends in a \<open>TypeError\<close>. This is the uncaught \<open>String(value)\<close> of C2; for every
  value whose conversion returns, \<open>plain_key_path_substitution\<close> proves the replacement.
\<close>
theorem plain_key_path_raises:
  "regexExec transformationRegex (trim ''user'') (trim ''user'') = None
   \<and> resolveDataPath h (JObj [(''user'', JObj [(''name'', JStr ''Ann''), (''toString'', JStr ''x'')])])
        ''user'' = Json (JObj [(''name'', JStr ''Ann''), (''toString'', JStr ''x'')])
   \<and> formatStringWithData h (Some ''Hi {{user}}!'')
        (Some (JObj [(''user'', JObj [(''name'', JStr ''Ann''), (''toString'', JStr ''x'')])]))
       = Inl TypeError"
  by (simp add: ev)

text \<open>
  C2. The call is to return a string and raise nothing, for every template and data
  document. It raises for a document in which an object has an own property
  \<open>toString\<close>: the plain key path branch converts the resolved value with
  \<open>String(value)\<close> outside any \<open>try\<close>, and the conversion of such an object is a
  \<open>TypeError\<close>. For every other document the call returns
  (\<open>format_total_without_own_toString\<close>).
\<close>
theorem own_toString_raises:
  "formatStringWithData h (Some ''{{k}}'') (Some (JObj [(''k'', JObj [(''toString'', v)])]))
     = Inl TypeError"
  by (simp add: ev)

text \<open>
  C3. For every starting value whose string conversion is \<open>s0\<close> (a missing or \<open>null\<close>
  value counts as the empty string) and every list of pairs \<open>[search, replacement]\<close> of
  strings, the \<open>replace\<close> transformation returns \<open>s0\<close> after the global literal
  replacement of each pair, in the order of the arguments, each on the result of the one
  before, a pair with the empty \<open>search\<close> changing nothing. In particular
  \<open>format("{{replace(d, ['is','WAS'], ['test','T'])}}", {d:"This is a test."})\<close> is
  \<open>"ThWAS WAS a T."\<close>.
\<close>
theorem replace_transformation_sequential:
  "(ToString h (if value = Undefined \<or> value = Json JNull then Json (JStr []) else value) = Inr s0 \<longrightarrow>
      defaultTransformations_replace h value
        (map (\<lambda>(search, replacement). Json (JArr [JStr search, JStr replacement])) pairs) =
      Inr (Json (JStr (foldl (\<lambda>acc (search, replacement).
                  if search = [] then acc else globalLiteralReplace search replacement acc) s0 pairs))))
   \<and> formatStringWithData h (Some ''{{replace(d, ['is','WAS'], ['test','T'])}}'')
        (Some (JObj [(''d'', JStr ''This is a test.'')])) = Inr ''ThWAS WAS a T.''"
proof (intro conjI impI)
  assume "ToString h (if value = Undefined \<or> value = Json JNull then Json (JStr []) else value) = Inr s0"
  then show "defaultTransformations_replace h value
        (map (\<lambda>(search, replacement). Json (JArr [JStr search, JStr replacement])) pairs) =
      Inr (Json (JStr (foldl (\<lambda>acc (search, replacement).
                  if search = [] then acc else globalLiteralReplace search replacement acc) s0 pairs)))"
    by (simp add: defaultTransformations_replace_def andThen_def replaceLoop_pairs)
next
  show "formatStringWithData h (Some ''{{replace(d, ['is','WAS'], ['test','T'])}}'')
        (Some (JObj [(''d'', JStr ''This is a test.'')])) = Inr ''ThWAS WAS a T.''"
    by (simp add: ev)
qed

theorem replace_transformation_sequential_witness:
  "ToString sampleHost (Json (JBool True)) = Inr ''true'' \<and>
   defaultTransformations_replace sampleHost (Json (JBool True))
     [Json (JArr [JStr ''t'', JStr ''tt'']), Json (JArr [JStr [], JStr ''Z'']),
      Json (JArr [JStr ''tr'', JStr ''-''])] = Inr (Json (JStr ''t-ue''))"
proof -
  have a: "ToString sampleHost (if Json (JBool True) = Undefined \<or> Json (JBool True) = Json JNull
      then Json (JStr []) else Json (JBool True)) = Inr ''true''" by simp
  have b: "foldl (\<lambda>acc (search, replacement).
                  if search = [] then acc else globalLiteralReplace search replacement acc) ''true''
             [(''t'', ''tt''), ([], ''Z''), (''tr'', ''-'')] = ''t-ue''"
    by (simp add: startsWith_def)
  from replace_transformation_sequential[of sampleHost "Json (JBool True)" "''true''"
      "[(''t'', ''tt''), ([], ''Z''), (''tr'', ''-'')]"] a
  show ?thesis unfolding b by simp
qed

text \<open>
  C4. For every resolved value and every fallback string, the \<open>default\<close> transformation
  returns the fallback when the value is \<open>undefined\<close> (not found) or \<open>null\<close>, and the
  string conversion of the value otherwise. In particular
  \<open>format("{{default(missing,'X')}}", {}) = "X"\<close>,
  \<open>format("{{default(k,'X')}}", {k: null}) = "X"\<close> and
  \<open>format("{{default(k,'X')}}", {k: "v"}) = "v"\<close>.
\<close>
theorem default_transformation_fallback:
  "defaultTransformations_default h value [Json (JStr fallback)] =
     (if value = Undefined \<or> value = Json JNull then Inr (Json (JStr fallback))
      else andThen (ToString h value) (\<lambda>s. Inr (Json (JStr s))))
   \<and> formatStringWithData h (Some ''{{default(missing,'X')}}'') (Some (JObj [])) = Inr ''X''
   \<and> formatStringWithData h (Some ''{{default(k,'X')}}'') (Some (JObj [(''k'', JNull)])) = Inr ''X''
   \<and> formatStringWithData h (Some ''{{default(k,'X')}}'') (Some (JObj [(''k'', JStr ''v'')])) = Inr ''v''"
proof (intro conjI)
  show "defaultTransformations_default h value [Json (JStr fallback)] =
     (if value = Undefined \<or> value = Json JNull then Inr (Json (JStr fallback))
      else andThen (ToString h value) (\<lambda>s. Inr (Json (JStr s))))"
    by (simp add: defaultTransformations_default_def)
  show "formatStringWithData h (Some ''{{default(missing,'X')}}'') (Some (JObj [])) = Inr ''X''"
    by (simp add: ev objectPrototypeMethods_def builtin_def)
  show "formatStringWithData h (Some ''{{default(k,'X')}}'') (Some (JObj [(''k'', JNull)])) = Inr ''X''"
    by (simp add: ev)
  show "formatStringWithData h (Some ''{{default(k,'X')}}'') (Some (JObj [(''k'', JStr ''v'')])) = Inr ''v''"
    by (simp add: ev)
qed

theorem default_transformation_fallback_witness:
  "defaultTransformations_default sampleHost (Json (JNum 42)) [Json (JStr ''none'')] = Inr (Json (JStr ''42''))
   \<and> defaultTransformations_default sampleHost Undefined [Json (JStr ''none'')] = Inr (Json (JStr ''none''))"
proof -
  have "ToString sampleHost (Json (JNum 42)) = Inr ''42''" by code_simp
  with default_transformation_fallback[of sampleHost "Json (JNum 42)" "''none''"]
    default_transformation_fallback[of sampleHost Undefined "''none''"]
  show ?thesis by (simp add: andThen_def)
qed

text \<open>
  C5, as amended. For every number \<open>v\<close>, the \<open>date\<close> transformation renders the time value
  of \<open>v * 1000\<close> when \<open>v < 1e11\<close> (seconds) and of \<open>v\<close> otherwise (milliseconds), and
  \<open>#ERROR\<close> when that is no valid time. For every \<open>v < 1e11\<close> whose product \<open>v * 1000\<close>
  is not below \<open>1e11\<close>, \<open>format("{{date(t)}}", {t: v})\<close> equals
  \<open>format("{{date(t)}}", {t: v * 1000})\<close>; on the sample host 1678886400 and
  1678886400000 both render as 3/15/2023. For a smaller \<open>v\<close> the equation fails:
  \<open>v * 1000\<close> is then below \<open>1e11\<close> too and is read as seconds again, so that 1000 and
  1000000 render as 1/1/1970 and 1/12/1970.
\<close>
theorem date_seconds_or_milliseconds:
  "defaultTransformations_date h (Json (JNum v)) args =
     Inr (Json (JStr (case numTimeClip h (if numLt1e11 h v then numMul1000 h v else v) of
                        None \<Rightarrow> ''#ERROR''
                      | Some t \<Rightarrow> toLocaleDateString h t)))
   \<and> (numLt1e11 h v \<and> \<not> numLt1e11 h (numMul1000 h v) \<longrightarrow>
        formatStringWithData h (Some ''{{date(t)}}'') (Some (JObj [(''t'', JNum v)])) =
        formatStringWithData h (Some ''{{date(t)}}'') (Some (JObj [(''t'', JNum (numMul1000 h v))])))"
proof (intro conjI impI)
  show "defaultTransformations_date h (Json (JNum v)) args =
     Inr (Json (JStr (case numTimeClip h (if numLt1e11 h v then numMul1000 h v else v) of
                        None \<Rightarrow> ''#ERROR''
                      | Some t \<Rightarrow> toLocaleDateString h t)))"
    by (simp add: defaultTransformations_date_def date_try_def newDate_def andThen_def
        split: option.splits)
next
  assume "numLt1e11 h v \<and> \<not> numLt1e11 h (numMul1000 h v)"
  then show "formatStringWithData h (Some ''{{date(t)}}'') (Some (JObj [(''t'', JNum v)])) =
        formatStringWithData h (Some ''{{date(t)}}'') (Some (JObj [(''t'', JNum (numMul1000 h v))]))"
    by (simp add: format_date_number)
qed

theorem date_seconds_or_milliseconds_witness:
  "numLt1e11 sampleHost 1678886400 \<and> \<not> numLt1e11 sampleHost (numMul1000 sampleHost 1678886400)
   \<and> numMul1000 sampleHost 1678886400 = 1678886400000
   \<and> formatStringWithData sampleHost (Some ''{{date(t)}}'') (Some (JObj [(''t'', JNum 1678886400)]))
       = Inr ''3/15/2023''
   \<and> formatStringWithData sampleHost (Some ''{{date(t)}}'') (Some (JObj [(''t'', JNum 1678886400000)]))
       = Inr ''3/15/2023''"
proof -
  have a: "numLt1e11 sampleHost 1678886400" "\<not> numLt1e11 sampleHost (numMul1000 sampleHost 1678886400)"
    "numMul1000 sampleHost 1678886400 = 1678886400000"
    by (simp_all add: sampleHost_fields)
  have b: "formatStringWithData sampleHost (Some ''{{date(t)}}'') (Some (JObj [(''t'', JNum 1678886400000)]))
       = Inr ''3/15/2023''"
    by (simp add: format_date_number sampleHost_fields shortDate_values)
  from date_seconds_or_milliseconds[of sampleHost 1678886400] a b
  show ?thesis by simp
qed

theorem date_small_seconds_counterexample:
  "numLt1e11 sampleHost 1000
   \<and> formatStringWithData sampleHost (Some ''{{date(t)}}'') (Some (JObj [(''t'', JNum 1000)]))
       = Inr ''1/1/1970''
   \<and> formatStringWithData sampleHost (Some ''{{date(t)}}'')
        (Some (JObj [(''t'', JNum (numMul1000 sampleHost 1000))])) = Inr ''1/12/1970''
   \<and> formatStringWithData sampleHost (Some ''{{date(t)}}'') (Some (JObj [(''t'', JNum 1000)]))
       \<noteq> formatStringWithData sampleHost (Some ''{{date(t)}}'')
            (Some (JObj [(''t'', JNum (numMul1000 sampleHost 1000))]))"
  by (simp add: format_date_number sampleHost_fields shortDate_values)

text \<open>
  C6. In every template and for every data document, a placeholder whose trimmed body the
  transformation pattern matches with a name that is none of \<open>default\<close>, \<open>date\<close>,
  \<open>replace\<close> is replaced by \<open>#ERROR\<close>. In particular \<open>format("{{bogus(x)}}", {x: v})\<close> is
  \<open>"#ERROR"\<close> for every number \<open>v\<close>.
\<close>
theorem unknown_transformation_is_error:
  "(noBraces body \<and>
    regexExec transformationRegex (trim body) (trim body) = Some (n, r, tm) \<and>
    tm 1 = Some name \<and> name \<notin> {''default'', ''date'', ''replace''} \<longrightarrow>
    formatStringWithData h (Some (pre @ ''{{'' @ body @ ''}}'' @ post)) data =
      andThen (formatStringWithData h (Some pre) data) (\<lambda>a.
        andThen (formatStringWithData h (Some post) data) (\<lambda>c. Inr (a @ ''#ERROR'' @ c))))
   \<and> formatStringWithData h (Some ''{{bogus(x)}}'') (Some (JObj [(''x'', JNum v)])) = Inr ''#ERROR''"
proof (intro conjI impI)
  assume a: "noBraces body \<and>
    regexExec transformationRegex (trim body) (trim body) = Some (n, r, tm) \<and>
    tm 1 = Some name \<and> name \<notin> {''default'', ''date'', ''replace''}"
  then have rep: "replacer h (dataToUse h data) body = Inr (Json (JStr ''#ERROR''))"
    using replacer_unknown[of body n r tm name h "dataToUse h data"]
    by (simp add: hasOwnProperty_def)
  from a have nb: "noBraces body" by simp
  show "formatStringWithData h (Some (pre @ ''{{'' @ body @ ''}}'' @ post)) data =
      andThen (formatStringWithData h (Some pre) data) (\<lambda>a.
        andThen (formatStringWithData h (Some post) data) (\<lambda>c. Inr (a @ ''#ERROR'' @ c)))"
    unfolding format_placeholder[OF nb] rep by (simp add: andThen_def split: sum.splits)
next
  show "formatStringWithData h (Some ''{{bogus(x)}}'') (Some (JObj [(''x'', JNum v)])) = Inr ''#ERROR''"
    by (simp add: ev)
qed

theorem unknown_transformation_is_error_witness:
  "noBraces '' toString( a, 'b' ) '' \<and>
   regexExec transformationRegex (trim '' toString( a, 'b' ) '') (trim '' toString( a, 'b' ) '')
     = Some (0, [], [1 \<mapsto> ''toString'', 2 \<mapsto> '' a, 'b' '']) \<and>
   ''toString'' \<notin> {''default'', ''date'', ''replace''} \<and>
   formatStringWithData sampleHost
     (Some (''<{{a}}>'' @ ''{{'' @ '' toString( a, 'b' ) '' @ ''}}'' @ ''</{{a}}>''))
     (Some (JObj [(''a'', JNum 7)])) = Inr ''<7>#ERROR</7>''"
proof -
  let ?d = "Some (JObj [(''a'', JNum (7::int))])"
  have a: "noBraces '' toString( a, 'b' ) ''" by (simp add: noBraces_def)
  have b: "regexExec transformationRegex (trim '' toString( a, 'b' ) '') (trim '' toString( a, 'b' ) '')
     = Some (0, [], [1 \<mapsto> ''toString'', 2 \<mapsto> '' a, 'b' ''])"
    by (simp add: ev)
  have c: "''toString'' \<notin> {''default'', ''date'', ''replace''}" by simp
  have d: "formatStringWithData sampleHost (Some ''<{{a}}>'') ?d = Inr ''<7>''" by code_simp
  have e: "formatStringWithData sampleHost (Some ''</{{a}}>'') ?d = Inr ''</7>''" by code_simp
  have f: "[1 \<mapsto> ''toString'', 2 \<mapsto> '' a, 'b' ''] (1::nat) = Some ''toString''" by simp
  from unknown_transformation_is_error[of "'' toString( a, 'b' ) ''" 0 "[]"
      "[1 \<mapsto> ''toString'', 2 \<mapsto> '' a, 'b' '']" "''toString''" sampleHost "''<{{a}}>''" "''</{{a}}>''" ?d]
    a b c f
  have "formatStringWithData sampleHost
     (Some (''<{{a}}>'' @ ''{{'' @ '' toString( a, 'b' ) '' @ ''}}'' @ ''</{{a}}>'')) ?d =
      andThen (formatStringWithData sampleHost (Some ''<{{a}}>'') ?d) (\<lambda>a.
        andThen (formatStringWithData sampleHost (Some ''</{{a}}>'') ?d) (\<lambda>c. Inr (a @ ''#ERROR'' @ c)))"
    by blast
  then show ?thesis using a b c unfolding d e by (simp add: andThen_def)
qed




text \<open>
  C8. In every template and for every data document, a \<open>{{\<close> that no \<open>}}\<close> follows
  before the end of the input stays in the output as it is, delimiters included: the
  result is the result for the text before it, followed by the \<open>{{\<close> and the rest. In
  particular \<open>format("{{name", {name:"x"}) = "{{name"\<close>.
\<close>
theorem unterminated_placeholder_is_literal:
  "(\<not> containsClose rest \<longrightarrow>
      formatStringWithData h (Some (pre @ ''{{'' @ rest)) data =
        andThen (formatStringWithData h (Some pre) data) (\<lambda>a. Inr (a @ ''{{'' @ rest)))
   \<and> formatStringWithData h (Some ''{{name'') (Some (JObj [(''name'', JStr ''x'')])) = Inr ''{{name''"
proof
  show "\<not> containsClose rest \<longrightarrow>
      formatStringWithData h (Some (pre @ ''{{'' @ rest)) data =
        andThen (formatStringWithData h (Some pre) data) (\<lambda>a. Inr (a @ ''{{'' @ rest))"
    using format_unterminated by blast
  show "formatStringWithData h (Some ''{{name'') (Some (JObj [(''name'', JStr ''x'')])) = Inr ''{{name''"
    using format_unterminated[of "''name''" h "[]" "Some (JObj [(''name'', JStr ''x'')])"]
    by (simp add: formatStringWithData_def andThen_def)
qed

theorem unterminated_placeholder_is_literal_witness:
  "\<not> containsClose ''name} {x'' \<and>
   formatStringWithData sampleHost (Some (''Hi {{a}}, '' @ ''{{'' @ ''name} {x''))
      (Some (JObj [(''a'', JStr ''you''), (''name'', JStr ''x'')])) = Inr ''Hi you, {{name} {x''"
proof -
  have a: "\<not> containsClose ''name} {x''" by simp
  have b: "formatStringWithData sampleHost (Some ''Hi {{a}}, '')
      (Some (JObj [(''a'', JStr ''you''), (''name'', JStr ''x'')])) = Inr ''Hi you, ''"
    by code_simp
  from unterminated_placeholder_is_literal[of "''name} {x''" sampleHost "''Hi {{a}}, ''"
      "Some (JObj [(''a'', JStr ''you''), (''name'', JStr ''x'')])"] a b
  show ?thesis by (simp add: andThen_def)
qed



text \<open>
  C10. For every template, the call with the data document \<open>null\<close> gives what the call
  with the empty mapping gives, and what the call with no data document gives.
\<close>
theorem null_data_as_empty_mapping:
  "formatStringWithData h template (Some JNull) = formatStringWithData h template (Some (JObj []))
   \<and> formatStringWithData h template (Some JNull) = formatStringWithData h template None"
proof -
  have d: "dataToUse h (Some JNull) = JObj []" "dataToUse h None = JObj []"
    "dataToUse h (Some (JObj [])) = JObj []"
    by (simp_all add: dataToUse_def)
  show ?thesis unfolding formatStringWithData_def d by simp
qed

theorem null_data_as_empty_mapping_witness:
  "formatStringWithData sampleHost (Some ''a{{toString}}b{{x}}'') (Some JNull) =
     Inr ''afunction toString() { [native code] }b''
   \<and> formatStringWithData sampleHost (Some ''a{{toString}}b{{x}}'') (Some (JObj [])) =
     Inr ''afunction toString() { [native code] }b''"
proof -
  have "formatStringWithData sampleHost (Some ''a{{toString}}b{{x}}'') (Some (JObj [])) =
     Inr ''afunction toString() { [native code] }b''"
    by code_simp
  with null_data_as_empty_mapping[of sampleHost "Some ''a{{toString}}b{{x}}''"]
  show ?thesis by simp
qed

end
